theory Spec2Isabelle
  imports Main "HOL-Library.Word"
begin

unbundle bit_operations_syntax

section \<open>The GDB remote debug server of \<^verbatim>\<open>vita3k/gdbstub/src/gdb.cpp\<close>\<close>

text \<open>
  Bytes of packets are \<^typ>\<open>char\<close> (eight bits), C++ strings are \<^typ>\<open>string\<close>.
  \<^verbatim>\<open>uint8_t\<close>, \<^verbatim>\<open>uint32_t\<close> and \<^verbatim>\<open>size_t\<close> are words of 8, 32 and 64 bits;
  \<^verbatim>\<open>SceUID\<close> is a 32-bit word read as two's complement where its sign matters.
  The host is a 64-bit little-endian machine with a signed plain \<^verbatim>\<open>char\<close> and a 64-bit
  \<^verbatim>\<open>unsigned long\<close> (x86-64 Linux and macOS).
\<close>

type_synonym Address = "32 word"
type_synonym SceUID = "32 word"

subsection \<open>Hex and checksum codec\<close>

definition hex_digit :: "nat \<Rightarrow> char" where
  "hex_digit d = ''0123456789abcdef'' ! d"

text \<open>The digits of a number in base 16, most significant first, without leading zeros
  (one digit for zero), as the presentation type \<^verbatim>\<open>x\<close> of \<^verbatim>\<open>fmt::format\<close> writes them.\<close>

fun hex_digits :: "nat \<Rightarrow> string" where
  "hex_digits n = (if n < 16 then [hex_digit n] else hex_digits (n div 16) @ [hex_digit (n mod 16)])"

declare hex_digits.simps [simp del]

text \<open>Fill \<^verbatim>\<open>0\<close>, align right, width \<open>w\<close>: the format spec \<^verbatim>\<open>{:0>w}\<close>.\<close>

definition pad_left :: "nat \<Rightarrow> char \<Rightarrow> string \<Rightarrow> string" where
  "pad_left w c s = replicate (w - length s) c @ s"

text \<open>\<^verbatim>\<open>to_hex(uint32_t)\<close>: \<^verbatim>\<open>fmt::format("{:0>8x}", value)\<close>.\<close>

definition to_hex :: "32 word \<Rightarrow> string" where
  "to_hex v = pad_left 8 CHR ''0'' (hex_digits (unat v))"

text \<open>\<^verbatim>\<open>to_hex(SceUID)\<close>: the same format on a signed value; \<^verbatim>\<open>fmt\<close> writes a negative
  integer as a minus sign and the digits of its absolute value, and the padding goes in front
  of the sign.\<close>

definition to_hex_uid :: "SceUID \<Rightarrow> string" where
  "to_hex_uid v =
     (if sint v < 0 then pad_left 8 CHR ''0'' (CHR ''-'' # hex_digits (nat (- sint v)))
      else pad_left 8 CHR ''0'' (hex_digits (nat (sint v))))"

text \<open>The format \<^verbatim>\<open>{:0>2x}\<close> (and \<^verbatim>\<open>{:02x}\<close>) of a \<^verbatim>\<open>uint8_t\<close>.\<close>

definition hex2 :: "8 word \<Rightarrow> string" where
  "hex2 b = pad_left 2 CHR ''0'' (hex_digits (unat b))"

text \<open>\<^verbatim>\<open>htonl\<close> on the little-endian host: the 32-bit value whose bytes in memory (lowest
  address first) are the bytes of the argument in network order (most significant first).\<close>

definition be_bytes :: "32 word \<Rightarrow> 8 word list" where
  "be_bytes v = [ucast (drop_bit 24 v), ucast (drop_bit 16 v), ucast (drop_bit 8 v), ucast v]"

fun host_load :: "8 word list \<Rightarrow> 32 word" where
  "host_load [] = 0"
| "host_load (b # bs) = ucast b OR push_bit 8 (host_load bs)"

definition htonl :: "32 word \<Rightarrow> 32 word" where
  "htonl v = host_load (be_bytes v)"

text \<open>The byte swap of a 32-bit value, by shifts and masks.\<close>

definition byteswap32 :: "32 word \<Rightarrow> 32 word" where
  "byteswap32 v =
     push_bit 24 (v AND 0xFF) OR push_bit 8 (v AND 0xFF00)
       OR (drop_bit 8 v AND 0xFF00) OR drop_bit 24 v"

definition be_hex :: "32 word \<Rightarrow> string" where
  "be_hex v = to_hex (htonl v)"

text \<open>\<^verbatim>\<open>c_str()\<close> followed by a C function reading up to the terminating zero byte: a C++
  string may hold zero bytes, the C string ends at the first one.\<close>

definition c_str :: "string \<Rightarrow> string" where
  "c_str s = takeWhile (\<lambda>c. c \<noteq> CHR 0x00) s"

definition hex_val :: "char \<Rightarrow> nat option" where
  "hex_val c =
     (let n = (of_char c :: nat) in
      if 48 \<le> n \<and> n \<le> 57 then Some (n - 48)
      else if 97 \<le> n \<and> n \<le> 102 then Some (n - 87)
      else if 65 \<le> n \<and> n \<le> 70 then Some (n - 55)
      else None)"

definition is_space :: "char \<Rightarrow> bool" where
  "is_space c = (let n = (of_char c :: nat) in n = 32 \<or> (9 \<le> n \<and> n \<le> 13))"

text \<open>The digit loop of \<^verbatim>\<open>strtoul\<close>: the value of the longest prefix of hex digits.\<close>

fun hex_accum :: "nat \<Rightarrow> string \<Rightarrow> nat" where
  "hex_accum acc [] = acc"
| "hex_accum acc (c # cs) =
     (case hex_val c of None \<Rightarrow> acc | Some d \<Rightarrow> hex_accum (acc * 16 + d) cs)"

definition ULONG_MAX :: nat where
  "ULONG_MAX = 2 ^ 64 - 1"

text \<open>\<^verbatim>\<open>strtoul(s, nullptr, 16)\<close> of the C library: leading white space, an optional sign,
  an optional \<^verbatim>\<open>0x\<close> or \<^verbatim>\<open>0X\<close>, then hex digits; no digits give 0; a value beyond
  \<^verbatim>\<open>ULONG_MAX\<close> gives \<^verbatim>\<open>ULONG_MAX\<close>; a minus sign negates in the unsigned type.\<close>

definition strtoul16 :: "string \<Rightarrow> nat" where
  "strtoul16 s =
     (let s1 = dropWhile is_space s;
          neg = (s1 \<noteq> [] \<and> hd s1 = CHR ''-'');
          s2 = (if s1 \<noteq> [] \<and> (hd s1 = CHR ''-'' \<or> hd s1 = CHR ''+'') then tl s1 else s1);
          s3 = (case s2 of
                  c0 # cx # rest \<Rightarrow>
                    if c0 = CHR ''0'' \<and> (cx = CHR ''x'' \<or> cx = CHR ''X'') then rest else s2
                | _ \<Rightarrow> s2);
          v = hex_accum 0 s3
      in if v > ULONG_MAX then ULONG_MAX
         else if neg then (2 ^ 64 - v) mod 2 ^ 64 else v)"

definition parse_hex :: "string \<Rightarrow> 32 word" where
  "parse_hex hex = of_nat (strtoul16 (c_str hex))"

text \<open>The conversion of a plain \<^verbatim>\<open>char\<close> to \<^verbatim>\<open>size_t\<close> in \<^verbatim>\<open>sum += data[a]\<close>: the
  char is signed, so bytes from 0x80 are sign-extended.\<close>

definition char_to_size_t :: "char \<Rightarrow> 64 word" where
  "char_to_size_t c = (if (of_char c :: nat) < 128 then of_char c else of_char c - 256)"

text \<open>\<^verbatim>\<open>make_checksum(data, length)\<close>: the loop reads \<^verbatim>\<open>data[0 .. length - 1]\<close>; a
  length that is not positive reads nothing.\<close>

definition make_checksum :: "string \<Rightarrow> int \<Rightarrow> 8 word" where
  "make_checksum data len =
     ucast ((foldl (\<lambda>sum c. sum + char_to_size_t c) (0 :: 64 word) (take (nat len) data)) mod 256)"


subsection \<open>C++ strings\<close>

text \<open>\<^verbatim>\<open>size_t\<close> values are natural numbers below \<open>2 ^ 64\<close>; sums and differences that
  can leave that range are reduced modulo \<open>2 ^ 64\<close>, as the unsigned type does.\<close>

definition npos :: nat where
  "npos = 2 ^ 64 - 1"

definition size_add :: "nat \<Rightarrow> nat \<Rightarrow> nat" where
  "size_add a b = (a + b) mod 2 ^ 64"

definition size_sub :: "nat \<Rightarrow> nat \<Rightarrow> nat" where
  "size_sub a b = (a + 2 ^ 64 - b mod 2 ^ 64) mod 2 ^ 64"

datatype fault =
    OutOfRange        \<comment> \<open>\<^verbatim>\<open>std::out_of_range\<close>, thrown by \<^verbatim>\<open>substr\<close> and \<^verbatim>\<open>std::stol\<close>\<close>
  | LengthError       \<comment> \<open>\<^verbatim>\<open>std::length_error\<close>, thrown by the string constructor\<close>
  | InvalidArgument   \<comment> \<open>\<^verbatim>\<open>std::invalid_argument\<close>, thrown by \<^verbatim>\<open>std::stol\<close>\<close>
  | NullDeref         \<comment> \<open>a null pointer is dereferenced\<close>
  | PastTheEnd        \<comment> \<open>an iterator at or beyond \<^verbatim>\<open>end()\<close> is dereferenced\<close>
  | NeverReturns      \<comment> \<open>a wait that is never satisfied\<close>

text \<open>\<^verbatim>\<open>s.find(ch, pos)\<close>: the first index from \<open>pos\<close> that holds \<open>ch\<close>, or \<^verbatim>\<open>npos\<close>.\<close>

definition find_from :: "string \<Rightarrow> char \<Rightarrow> nat \<Rightarrow> nat" where
  "find_from s ch pos =
     (let k = length (takeWhile (\<lambda>c. c \<noteq> ch) (drop pos s))
      in if pos + k < length s then pos + k else npos)"

text \<open>\<^verbatim>\<open>s.substr(pos, n)\<close> throws when \<open>pos\<close> is beyond the size, and is cut at the end.\<close>

definition substr :: "string \<Rightarrow> nat \<Rightarrow> nat \<Rightarrow> fault + string" where
  "substr s pos n = (if pos > length s then Inl OutOfRange else Inr (take n (drop pos s)))"

definition dec_val :: "char \<Rightarrow> nat option" where
  "dec_val c =
     (let n = (of_char c :: nat) in if 48 \<le> n \<and> n \<le> 57 then Some (n - 48) else None)"

fun dec_accum :: "nat \<Rightarrow> string \<Rightarrow> nat" where
  "dec_accum acc [] = acc"
| "dec_accum acc (c # cs) =
     (case dec_val c of None \<Rightarrow> acc | Some d \<Rightarrow> dec_accum (acc * 10 + d) cs)"

text \<open>\<^verbatim>\<open>std::stol(str)\<close>: \<^verbatim>\<open>strtol\<close> in base 10 on the C string; no digit throws
  \<^verbatim>\<open>std::invalid_argument\<close>, a value outside \<^verbatim>\<open>long\<close> throws \<^verbatim>\<open>std::out_of_range\<close>.\<close>

definition stol :: "string \<Rightarrow> fault + int" where
  "stol str =
     (let s1 = dropWhile is_space (c_str str);
          neg = (s1 \<noteq> [] \<and> hd s1 = CHR ''-'');
          s2 = (if s1 \<noteq> [] \<and> (hd s1 = CHR ''-'' \<or> hd s1 = CHR ''+'') then tl s1 else s1);
          v = (if neg then - int (dec_accum 0 s2) else int (dec_accum 0 s2))
      in if s2 = [] \<or> dec_val (hd s2) = None then Inl InvalidArgument
         else if v < - (2 ^ 63) \<or> 2 ^ 63 - 1 < v then Inl OutOfRange
         else Inr v)"

subsection \<open>Emulator state seen by the server\<close>

text \<open>Modelled from the spec: the status of a guest thread is one of \<^verbatim>\<open>run\<close>,
  \<^verbatim>\<open>suspend\<close>, \<^verbatim>\<open>dormant\<close> (the enum \<^verbatim>\<open>ThreadStatus\<close> is declared in the kernel).\<close>

datatype ThreadStatus = run | suspend | dormant

text \<open>Modelled from the spec: each thread owns a CPU with registers r0 to r12, sp, lr, pc,
  single-precision float registers, fpscr and cpsr, read and written by the primitives
  \<^verbatim>\<open>read_reg\<close>, \<^verbatim>\<open>write_reg\<close>, ... of the CPU module, and the predicate
  \<^verbatim>\<open>hit_breakpoint\<close>. A float register holds its 32-bit pattern, which is what
  \<^verbatim>\<open>std::bit_cast\<close> passes unchanged.\<close>

record CPUState =
  cpu_reg :: "32 word \<Rightarrow> 32 word"
  cpu_sp :: "32 word"
  cpu_lr :: "32 word"
  cpu_pc :: "32 word"
  cpu_float_reg :: "32 word \<Rightarrow> 32 word"
  cpu_fpscr :: "32 word"
  cpu_cpsr :: "32 word"
  hit_breakpoint :: bool

record ThreadState =
  status :: ThreadStatus
  cpu :: CPUState

text \<open>The calls made to the kernel debugger, latest last.\<close>

datatype debugger_call = add_breakpoint Address bool | remove_breakpoint Address

text \<open>\<^verbatim>\<open>kernel.threads\<close> is an ordered map from thread id to thread: the list of its
  entries in iteration order.\<close>

record KernelState =
  threads :: "(SceUID \<times> ThreadState) list"
  debugger :: "debugger_call list"

text \<open>Modelled from the spec: guest memory is a flat 32-bit address space with a page
  granularity \<^verbatim>\<open>page_size\<close>, and validity is per page. \<open>page_valid\<close> is the validity of
  each page, \<open>memory\<close> the byte behind each address, \<open>elf_base\<close> the base subtracted by
  \<^verbatim>\<open>Ptr::get_guest\<close>.\<close>

record MemState =
  page_size :: "32 word"
  page_valid :: "nat \<Rightarrow> bool"
  memory :: "Address \<Rightarrow> 8 word"
  elf_base :: Address

text \<open>\<open>sent\<close> is the stream of bytes written to \<^verbatim>\<open>client_socket\<close> so far; every
  \<^verbatim>\<open>send\<close> is taken to write all its bytes.\<close>

record GDBState =
  server_die :: bool
  last_reply :: string
  current_thread :: SceUID
  inferior_thread :: SceUID
  thread_info_index :: nat
  sent :: string

record EmuEnvState =
  gdb :: GDBState
  kernel :: KernelState
  mem :: MemState

text \<open>Modelled from the spec: \<^verbatim>\<open>is_valid_addr\<close> of the memory subsystem, the validity of
  the page that holds the address.\<close>

definition is_valid_addr :: "MemState \<Rightarrow> Address \<Rightarrow> bool" where
  "is_valid_addr m a = page_valid m (unat a div unat (page_size m))"

text \<open>Modelled from the spec: \<^verbatim>\<open>is_valid_guest_addr\<close> of the memory subsystem, whether
  the address is a valid guest address.\<close>

definition is_valid_guest_addr :: "MemState \<Rightarrow> Address \<Rightarrow> bool" where
  "is_valid_guest_addr m a = page_valid m (unat a div unat (page_size m))"

text \<open>Modelled from the spec: \<^verbatim>\<open>is_valid_guest_addr_range(mem, a, end)\<close> of the memory
  subsystem; a range \<open>[a, end)\<close> is valid iff every page it touches is valid.\<close>

definition pages_touched :: "MemState \<Rightarrow> Address \<Rightarrow> Address \<Rightarrow> nat list" where
  "pages_touched m a e =
     (if a < e then [unat a div unat (page_size m) ..< Suc ((unat e - 1) div unat (page_size m))]
      else [])"

definition is_valid_guest_addr_range :: "MemState \<Rightarrow> Address \<Rightarrow> Address \<Rightarrow> bool" where
  "is_valid_guest_addr_range m a e = list_all (page_valid m) (pages_touched m a e)"

subsection \<open>Packet framing\<close>

text \<open>\<^verbatim>\<open>content_start\<close> is \<^verbatim>\<open>data + begin_index\<close> and \<^verbatim>\<open>checksum_start\<close> is
  \<^verbatim>\<open>data + end_index + 1\<close>; both are read through the indices.\<close>

record PacketCommand =
  data :: string
  data_length :: int
  begin_index :: int
  end_index :: int
  content_length :: int
  checksum :: "8 word"
  is_valid :: bool

definition content_string :: "PacketCommand \<Rightarrow> string" where
  "content_string command =
     take (nat (content_length command)) (drop (nat (begin_index command)) (data command))"

text \<open>The scan of \<^verbatim>\<open>parse_command\<close> for the last \<^verbatim>\<open>#\<close> among \<^verbatim>\<open>data[0 .. length - 1]\<close>.\<close>

definition last_hash :: "string \<Rightarrow> int \<Rightarrow> int" where
  "last_hash d len =
     foldl (\<lambda>e a. if d ! a = CHR ''#'' then int a else e) (- 1) [0 ..< nat len]"

definition parse_command :: "string \<Rightarrow> int \<Rightarrow> PacketCommand" where
  "parse_command d len =
     (let bi = (if len > 1 then 1 else - 1);
          ei = last_hash d len;
          command = \<lparr>data = d, data_length = len, begin_index = bi, end_index = ei,
                     content_length = - 1, checksum = 0,
                     is_valid = (bi \<noteq> - 1 \<and> ei \<noteq> - 1 \<and> ei > bi \<and> ei + 2 < len)\<rparr>
      in if \<not> is_valid command then command
         else
           (let cl = ei - bi;
                cs = (ucast (parse_hex (take 2 (drop (nat (ei + 1)) d))) :: 8 word)
            in command\<lparr>content_length := cl, checksum := cs,
                        is_valid := (make_checksum (drop (nat bi) d) cl = cs)\<rparr>))"

text \<open>\<^verbatim>\<open>server_reply(state, data, length)\<close> and \<^verbatim>\<open>server_reply(state, text)\<close>; the
  second takes a C string, whose length is that of the list.\<close>

definition server_reply :: "GDBState \<Rightarrow> string \<Rightarrow> int \<Rightarrow> GDBState" where
  "server_reply g d len =
     g\<lparr>sent := sent g @ CHR ''$'' # take (nat len) d @ CHR ''#'' # hex2 (make_checksum d len)\<rparr>"

definition server_reply_text :: "GDBState \<Rightarrow> string \<Rightarrow> GDBState" where
  "server_reply_text g text = server_reply g text (int (length text))"

definition server_ack :: "GDBState \<Rightarrow> char \<Rightarrow> GDBState" where
  "server_ack g ack = g\<lparr>sent := sent g @ [ack]\<rparr>"

subsection \<open>Handlers\<close>

type_synonym reply = "fault + (string \<times> EmuEnvState)"

definition cmd_supported :: "EmuEnvState \<Rightarrow> PacketCommand \<Rightarrow> reply" where
  "cmd_supported state command =
     Inr (''multiprocess-;swbreak+;hwbreak-;qRelocInsn-;fork-events-;vfork-events-;''
          @ ''exec-events-;vContSupported+;QThreadEvents-;no-resumed-;xmlRegisters=arm'', state)"

definition cmd_reply_empty :: "EmuEnvState \<Rightarrow> PacketCommand \<Rightarrow> reply" where
  "cmd_reply_empty state command = Inr ([], state)"

definition select_thread :: "EmuEnvState \<Rightarrow> 32 word \<Rightarrow> SceUID" where
  "select_thread state thread_id =
     (if thread_id = 0 then
        (case threads (kernel state) of [] \<Rightarrow> - 1 | (tid, t) # rest \<Rightarrow> tid)
      else thread_id)"

text \<open>The string built from \<^verbatim>\<open>content_start + 2\<close> has the length
  \<^verbatim>\<open>content_length - 2\<close> converted to \<^verbatim>\<open>unsigned long\<close>: for a content of one byte
  that is \<open>2 ^ 64 - 1\<close>, and the constructor throws.\<close>

definition cmd_set_current_thread :: "EmuEnvState \<Rightarrow> PacketCommand \<Rightarrow> reply" where
  "cmd_set_current_thread state command =
     (if content_length command - 2 < 0 then Inl LengthError
      else
        (let thread_id = parse_hex (take (nat (content_length command - 2))
                           (drop (nat (begin_index command) + 2) (data command)));
             op = data command ! (nat (begin_index command) + 1)
         in if op = CHR ''c'' then Inr (''OK'', state)
            else if op = CHR ''g'' then
              Inr (''OK'', state\<lparr>gdb := (gdb state)\<lparr>current_thread := select_thread state thread_id\<rparr>\<rparr>)
            else Inr (''OK'', state)))"

definition cmd_get_current_thread :: "EmuEnvState \<Rightarrow> PacketCommand \<Rightarrow> reply" where
  "cmd_get_current_thread state command =
     Inr (''QC'' @ to_hex_uid (current_thread (gdb state)), state)"

text \<open>The CPU primitive that a register index reaches, for the record of what a handler
  reads.\<close>

datatype reg_access = read_reg "32 word" | read_sp | read_lr | read_pc
  | read_float_reg "32 word" | read_fpscr | read_cpsr

text \<open>\<^verbatim>\<open>fetch_reg\<close>: the primitives called, and the value returned.\<close>

definition fetch_reg :: "CPUState \<Rightarrow> 32 word \<Rightarrow> reg_access list \<times> 32 word" where
  "fetch_reg c r =
     (if r \<le> 12 then ([read_reg r], cpu_reg c r)
      else if r = 13 then ([read_sp], cpu_sp c)
      else if r = 14 then ([read_lr], cpu_lr c)
      else if r = 15 then ([read_pc], cpu_pc c)
      else if r \<le> 23 then ([read_float_reg (r - 16)], cpu_float_reg c (r - 16))
      else if r = 24 then ([read_fpscr], cpu_fpscr c)
      else if r = 25 then ([read_cpsr], cpu_cpsr c)
      else ([], 0))"

definition modify_reg :: "CPUState \<Rightarrow> 32 word \<Rightarrow> 32 word \<Rightarrow> CPUState" where
  "modify_reg c r v =
     (if r \<le> 12 then c\<lparr>cpu_reg := (cpu_reg c)(r := v)\<rparr>
      else if r = 13 then c\<lparr>cpu_sp := v\<rparr>
      else if r = 14 then c\<lparr>cpu_lr := v\<rparr>
      else if r = 15 then c\<lparr>cpu_pc := v\<rparr>
      else if r \<le> 23 then c\<lparr>cpu_float_reg := (cpu_float_reg c)(r - 16 := v)\<rparr>
      else if r = 24 then c\<lparr>cpu_fpscr := v\<rparr>
      else if r = 25 then c\<lparr>cpu_cpsr := v\<rparr>
      else c)"

text \<open>The guard shared by the register handlers: \<^verbatim>\<open>current_thread\<close> is not -1 and is
  a key of the thread table.\<close>

definition thread_ok :: "EmuEnvState \<Rightarrow> bool" where
  "thread_ok state =
     (\<not> (current_thread (gdb state) = - 1
         \<or> current_thread (gdb state) \<notin> fst ` set (threads (kernel state))))"

definition set_cpu :: "EmuEnvState \<Rightarrow> SceUID \<Rightarrow> CPUState \<Rightarrow> EmuEnvState" where
  "set_cpu state tid c =
     state\<lparr>kernel := (kernel state)\<lparr>threads :=
        map (\<lambda>(k, t). if k = tid then (k, t\<lparr>cpu := c\<rparr>) else (k, t)) (threads (kernel state))\<rparr>\<rparr>"

text \<open>The loop of \<^verbatim>\<open>cmd_read_registers\<close> from register \<open>a\<close>, with \<open>n\<close> registers left.\<close>

fun read_registers_loop :: "CPUState \<Rightarrow> 32 word \<Rightarrow> nat \<Rightarrow> reg_access list \<times> string
    \<Rightarrow> reg_access list \<times> string" where
  "read_registers_loop c a 0 acc = acc"
| "read_registers_loop c a (Suc n) (reads, str) =
     (let (rs, v) = fetch_reg c a
      in read_registers_loop c (a + 1) n (reads @ rs, str @ be_hex v))"

text \<open>\<^verbatim>\<open>cmd_read_registers\<close> with the CPU primitives it has called.\<close>

definition cmd_read_registers_traced :: "EmuEnvState \<Rightarrow> PacketCommand
    \<Rightarrow> fault + (reg_access list \<times> string \<times> EmuEnvState)" where
  "cmd_read_registers_traced state command =
     (if \<not> thread_ok state then Inr ([], ''E00'', state)
      else
        (case map_of (threads (kernel state)) (current_thread (gdb state)) of
           None \<Rightarrow> Inl NullDeref
         | Some t \<Rightarrow>
             (let (reads, str) = read_registers_loop (cpu t) 0 16 ([], [])
              in Inr (reads, str, state))))"

definition cmd_read_registers :: "EmuEnvState \<Rightarrow> PacketCommand \<Rightarrow> reply" where
  "cmd_read_registers state command =
     (case cmd_read_registers_traced state command of
        Inl e \<Rightarrow> Inl e | Inr (reads, r) \<Rightarrow> Inr r)"

definition cmd_write_registers :: "EmuEnvState \<Rightarrow> PacketCommand \<Rightarrow> reply" where
  "cmd_write_registers state command =
     (if \<not> thread_ok state then Inr (''E00'', state)
      else
        (case map_of (threads (kernel state)) (current_thread (gdb state)) of
           None \<Rightarrow> Inl NullDeref
         | Some t \<Rightarrow>
             (case substr (content_string command) 1 npos of
                Inl e \<Rightarrow> Inl e
              | Inr content \<Rightarrow>
                  (let c = foldl (\<lambda>c a. modify_reg c (of_nat a) (parse_hex (take 8 (drop (a * 8) content))))
                             (cpu t) [0 ..< length content div 8]
                   in Inr (''OK'', set_cpu state (current_thread (gdb state)) c)))))"

definition cmd_read_register :: "EmuEnvState \<Rightarrow> PacketCommand \<Rightarrow> reply" where
  "cmd_read_register state command =
     (if \<not> thread_ok state then Inr (''E00'', state)
      else
        (case map_of (threads (kernel state)) (current_thread (gdb state)) of
           None \<Rightarrow> Inl NullDeref
         | Some t \<Rightarrow>
             (let content = content_string command
              in case substr content 1 (size_sub (length content) 1) of
                   Inl e \<Rightarrow> Inl e
                 | Inr r \<Rightarrow> Inr (be_hex (snd (fetch_reg (cpu t) (parse_hex r))), state))))"

definition cmd_write_register :: "EmuEnvState \<Rightarrow> PacketCommand \<Rightarrow> reply" where
  "cmd_write_register state command =
     (if \<not> thread_ok state then Inr (''E00'', state)
      else
        (case map_of (threads (kernel state)) (current_thread (gdb state)) of
           None \<Rightarrow> Inl NullDeref
         | Some t \<Rightarrow>
             (let content = content_string command;
                  equal_index = find_from content CHR ''='' 0
              in case substr content 1 (size_sub equal_index 1) of
                   Inl e \<Rightarrow> Inl e
                 | Inr r \<Rightarrow>
                     (case substr content (size_add equal_index 1) npos of
                        Inl e \<Rightarrow> Inl e
                      | Inr v \<Rightarrow>
                          Inr (''OK'', set_cpu state (current_thread (gdb state))
                                         (modify_reg (cpu t) (parse_hex r) (parse_hex v)))))))"

text \<open>The loop of \<^verbatim>\<open>check_memory_region\<close>, with \<open>e\<close> for \<^verbatim>\<open>address + length\<close>; the
  additions wrap around in 32 bits, so the loop need not end.\<close>

partial_function (option) check_region_loop :: "MemState \<Rightarrow> Address \<Rightarrow> Address \<Rightarrow> bool option" where
  "check_region_loop m e it =
     (if it < e then
        (if \<not> is_valid_addr m it then Some False
         else check_region_loop m e (it + page_size m))
      else Some True)"

definition check_memory_region :: "Address \<Rightarrow> Address \<Rightarrow> MemState \<Rightarrow> bool option" where
  "check_memory_region address len m =
     (if address = 0 then Some False else check_region_loop m (address + len) address)"

text \<open>The loop of \<^verbatim>\<open>cmd_read_memory\<close> at index \<open>a\<close>, with \<open>n\<close> bytes left;
  \<^verbatim>\<open>Ptr::get\<close> gives a null pointer for the address 0.\<close>

fun read_memory_loop :: "MemState \<Rightarrow> Address \<Rightarrow> 32 word \<Rightarrow> nat \<Rightarrow> string \<Rightarrow> fault + string" where
  "read_memory_loop m address a 0 str = Inr str"
| "read_memory_loop m address a (Suc n) str =
     (if address + a = 0 then Inl NullDeref
      else read_memory_loop m address (a + 1) n (str @ hex2 (memory m (address + a))))"

definition cmd_read_memory :: "EmuEnvState \<Rightarrow> PacketCommand \<Rightarrow> reply" where
  "cmd_read_memory state command =
     (let content = content_string command;
          pos = find_from content CHR '','' 0
      in case substr content 1 (size_sub pos 1) of
           Inl e \<Rightarrow> Inl e
         | Inr first \<Rightarrow>
             (case substr content (size_add pos 1) npos of
                Inl e \<Rightarrow> Inl e
              | Inr second \<Rightarrow>
                  (let address = parse_hex first;
                       len = parse_hex second;
                       guest_end = address + len
                   in if \<not> is_valid_guest_addr_range (mem state) address guest_end
                      then Inr (''EAA'', state)
                      else
                        (case check_memory_region address len (mem state) of
                           None \<Rightarrow> Inl NeverReturns
                         | Some False \<Rightarrow> Inr (''EAA'', state)
                         | Some True \<Rightarrow>
                             (case read_memory_loop (mem state) address 0 (unat len) [] of
                                Inl e \<Rightarrow> Inl e
                              | Inr str \<Rightarrow> Inr (str, state))))))"

text \<open>The loop of \<^verbatim>\<open>cmd_write_memory\<close>. \<^verbatim>\<open>Ptr::get_guest\<close> gives a null pointer for
  the address 0 and for an address whose offset from \<^verbatim>\<open>elf_base\<close> is not valid; otherwise it
  points at that offset into the memory.\<close>

fun write_memory_loop :: "MemState \<Rightarrow> Address \<Rightarrow> string \<Rightarrow> 32 word \<Rightarrow> nat \<Rightarrow> fault + MemState" where
  "write_memory_loop m address hex_data a 0 = Inr m"
| "write_memory_loop m address hex_data a (Suc n) =
     (case substr hex_data (unat a * 2) 2 of
        Inl e \<Rightarrow> Inl e
      | Inr h \<Rightarrow>
          (if address + a = 0 \<or> \<not> is_valid_addr m (address + a - elf_base m) then Inl NullDeref
           else write_memory_loop
                  (m\<lparr>memory := (memory m)(address + a - elf_base m := ucast (parse_hex h))\<rparr>)
                  address hex_data (a + 1) n))"

definition cmd_write_memory :: "EmuEnvState \<Rightarrow> PacketCommand \<Rightarrow> reply" where
  "cmd_write_memory state command =
     (let content = content_string command;
          pos_first = find_from content CHR '','' 0;
          pos_second = find_from content CHR '':'' 0
      in case substr content 1 (size_sub pos_first 1) of
           Inl e \<Rightarrow> Inl e
         | Inr first \<Rightarrow>
             (case substr content (size_add pos_first 1) (size_sub pos_second pos_first) of
                Inl e \<Rightarrow> Inl e
              | Inr second \<Rightarrow>
                  (case substr content (size_add pos_second 1) npos of
                     Inl e \<Rightarrow> Inl e
                   | Inr hex_data \<Rightarrow>
                       (let address = parse_hex first; len = parse_hex second
                        in case check_memory_region address len (mem state) of
                             None \<Rightarrow> Inl NeverReturns
                           | Some False \<Rightarrow> Inr (''EAA'', state)
                           | Some True \<Rightarrow>
                               (case write_memory_loop (mem state) address hex_data 0 (unat len) of
                                  Inl e \<Rightarrow> Inl e
                                | Inr m \<Rightarrow> Inr (''OK'', state\<lparr>mem := m\<rparr>))))))"

definition cmd_detach :: "EmuEnvState \<Rightarrow> PacketCommand \<Rightarrow> reply" where
  "cmd_detach state command = Inr (''OK'', state)"

definition cmd_continue_supported :: "EmuEnvState \<Rightarrow> PacketCommand \<Rightarrow> reply" where
  "cmd_continue_supported state command = Inr (''vCont;c;C;s;S;t;r'', state)"

definition cmd_thread_alive :: "EmuEnvState \<Rightarrow> PacketCommand \<Rightarrow> reply" where
  "cmd_thread_alive state command =
     (case substr (content_string command) 1 npos of
        Inl e \<Rightarrow> Inl e
      | Inr t \<Rightarrow>
          (if parse_hex t \<in> fst ` set (threads (kernel state)) then Inr (''OK'', state)
           else Inr (''E00'', state)))"

definition cmd_kill :: "EmuEnvState \<Rightarrow> PacketCommand \<Rightarrow> reply" where
  "cmd_kill state command = Inr (''OK'', state)"

definition cmd_die :: "EmuEnvState \<Rightarrow> PacketCommand \<Rightarrow> reply" where
  "cmd_die state command = Inr ([], state\<lparr>gdb := (gdb state)\<lparr>server_die := True\<rparr>\<rparr>)"

definition cmd_attached :: "EmuEnvState \<Rightarrow> PacketCommand \<Rightarrow> reply" where
  "cmd_attached state command = Inr (''1'', state)"

definition cmd_thread_status :: "EmuEnvState \<Rightarrow> PacketCommand \<Rightarrow> reply" where
  "cmd_thread_status state command = Inr (''T0'', state)"

definition cmd_reason :: "EmuEnvState \<Rightarrow> PacketCommand \<Rightarrow> reply" where
  "cmd_reason state command = Inr (''S05'', state)"

text \<open>\<^verbatim>\<open>threads.begin()->first\<close> is read whatever the table holds; for the empty table
  \<^verbatim>\<open>begin()\<close> is \<^verbatim>\<open>end()\<close>.\<close>

definition cmd_get_first_thread :: "EmuEnvState \<Rightarrow> PacketCommand \<Rightarrow> reply" where
  "cmd_get_first_thread state command =
     (let state1 = state\<lparr>gdb := (gdb state)\<lparr>thread_info_index := 0\<rparr>\<rparr>
      in case threads (kernel state1) of
           [] \<Rightarrow> Inl PastTheEnd
         | (tid, t) # rest \<Rightarrow> Inr (CHR ''m'' # to_hex_uid tid, state1))"

definition cmd_get_next_thread :: "EmuEnvState \<Rightarrow> PacketCommand \<Rightarrow> reply" where
  "cmd_get_next_thread state command =
     (let index = thread_info_index (gdb state) + 1;
          state1 = state\<lparr>gdb := (gdb state)\<lparr>thread_info_index := index\<rparr>\<rparr>
      in if index = length (threads (kernel state1)) then Inr (''l'', state1)
         else if index < length (threads (kernel state1))
         then Inr (CHR ''m'' # to_hex_uid (fst (threads (kernel state1) ! index)), state1)
         else Inl PastTheEnd)"

definition cmd_add_breakpoint :: "EmuEnvState \<Rightarrow> PacketCommand \<Rightarrow> reply" where
  "cmd_add_breakpoint state command =
     (let content = content_string command;
          first = find_from content CHR '','' 0;
          second = find_from content CHR '','' (size_add first 1)
      in case substr content 1 (size_sub first 1) of
           Inl e \<Rightarrow> Inl e
         | Inr s_type \<Rightarrow>
         (case stol s_type of
            Inl e \<Rightarrow> Inl e
          | Inr type \<Rightarrow>
          (case substr content (size_add first 1) (size_sub (size_sub second 1) first) of
             Inl e \<Rightarrow> Inl e
           | Inr s_address \<Rightarrow>
           (case substr content (size_add second 1) (size_sub (size_sub (length content) second) 1) of
              Inl e \<Rightarrow> Inl e
            | Inr s_kind \<Rightarrow>
            (case stol s_kind of
               Inl e \<Rightarrow> Inl e
             | Inr kind \<Rightarrow>
                 (let address = parse_hex s_address
                  in if \<not> is_valid_guest_addr (mem state) address then Inr (''EAA'', state)
                     else Inr (''OK'', state\<lparr>kernel := (kernel state)\<lparr>debugger :=
                            debugger (kernel state)
                              @ [add_breakpoint address ((word_of_int kind :: 32 word) = 2)]\<rparr>\<rparr>)))))))"

definition cmd_remove_breakpoint :: "EmuEnvState \<Rightarrow> PacketCommand \<Rightarrow> reply" where
  "cmd_remove_breakpoint state command =
     (let content = content_string command;
          first = find_from content CHR '','' 0;
          second = find_from content CHR '','' (size_add first 1)
      in case substr content 1 (size_sub first 1) of
           Inl e \<Rightarrow> Inl e
         | Inr s_type \<Rightarrow>
         (case stol s_type of
            Inl e \<Rightarrow> Inl e
          | Inr type \<Rightarrow>
          (case substr content (size_add first 1) (size_sub (size_sub second 1) first) of
             Inl e \<Rightarrow> Inl e
           | Inr s_address \<Rightarrow>
           (case substr content (size_add second 1) (size_sub (size_sub (length content) second) 1) of
              Inl e \<Rightarrow> Inl e
            | Inr s_kind \<Rightarrow>
            (case stol s_kind of
               Inl e \<Rightarrow> Inl e
             | Inr kind \<Rightarrow>
                 (let address = parse_hex s_address
                  in if \<not> is_valid_guest_addr (mem state) address then Inr (''EAA'', state)
                     else Inr (''OK'', state\<lparr>kernel := (kernel state)\<lparr>debugger :=
                            debugger (kernel state) @ [remove_breakpoint address]\<rparr>\<rparr>)))))))"

definition cmd_deprecated :: "EmuEnvState \<Rightarrow> PacketCommand \<Rightarrow> reply" where
  "cmd_deprecated state command = Inr ([], state)"

definition cmd_unimplemented :: "EmuEnvState \<Rightarrow> PacketCommand \<Rightarrow> reply" where
  "cmd_unimplemented state command = Inr ([], state)"

subsection \<open>The execution controller\<close>

text \<open>
  The guest threads run on their own host threads, and \<^verbatim>\<open>resume\<close>, \<^verbatim>\<open>suspend\<close> and
  the waits on \<^verbatim>\<open>status_cond\<close> block the server thread until the guest thread has moved.
  What the guest does is given from outside:
  \<^item> \<open>resume_thread step tid t\<close> is the thread \<open>tid\<close> as the server thread next sees it
    after \<^verbatim>\<open>resume(step)\<close> on \<open>t\<close>, and \<open>suspend_thread tid t\<close> after \<^verbatim>\<open>suspend()\<close>;
    \<open>None\<close> when the call never returns;
  \<^item> \<open>polls\<close> is what each round of the wait for a breakpoint finds: the flag
    \<^verbatim>\<open>server_die\<close>, which another host thread may have set, and the thread table.
  A wait on a condition returns when the thread it sees satisfies the condition, and never
  otherwise.
\<close>

record Env =
  resume_thread :: "bool \<Rightarrow> SceUID \<Rightarrow> ThreadState \<Rightarrow> ThreadState option"
  suspend_thread :: "SceUID \<Rightarrow> ThreadState \<Rightarrow> ThreadState option"
  polls :: "(bool \<times> (SceUID \<times> ThreadState) list) list"

definition set_thread :: "EmuEnvState \<Rightarrow> SceUID \<Rightarrow> ThreadState \<Rightarrow> EmuEnvState" where
  "set_thread state tid t =
     state\<lparr>kernel := (kernel state)\<lparr>threads :=
        map (\<lambda>(k, u). if k = tid then (k, t) else (k, u)) (threads (kernel state))\<rparr>\<rparr>"

text \<open>The block under \<^verbatim>\<open>inferior_thread != 0\<close>: \<^verbatim>\<open>threads[inferior_thread]\<close> of a key
  that is absent is a null pointer.\<close>

definition resume_inferior :: "Env \<Rightarrow> EmuEnvState \<Rightarrow> bool \<Rightarrow> fault + EmuEnvState" where
  "resume_inferior env state step =
     (let tid = inferior_thread (gdb state)
      in if tid \<noteq> 0 then
           (case map_of (threads (kernel state)) tid of
              None \<Rightarrow> Inl NullDeref
            | Some t \<Rightarrow>
                (case resume_thread env step tid t of
                   None \<Rightarrow> Inl NeverReturns
                 | Some t' \<Rightarrow>
                     if step \<and> status t' \<noteq> suspend then Inl NeverReturns
                     else Inr (set_thread state tid t')))
         else Inr state)"

text \<open>Resume the world: every thread found suspended is resumed, and the loop waits until
  it is no longer suspended.\<close>

fun resume_world :: "Env \<Rightarrow> (SceUID \<times> ThreadState) list \<Rightarrow> fault + (SceUID \<times> ThreadState) list" where
  "resume_world env [] = Inr []"
| "resume_world env ((tid, t) # ts) =
     (if status t = suspend then
        (case resume_thread env False tid t of
           None \<Rightarrow> Inl NeverReturns
         | Some t' \<Rightarrow>
             if status t' \<noteq> suspend then
               (case resume_world env ts of Inl e \<Rightarrow> Inl e | Inr ts' \<Rightarrow> Inr ((tid, t') # ts'))
             else Inl NeverReturns)
      else (case resume_world env ts of Inl e \<Rightarrow> Inl e | Inr ts' \<Rightarrow> Inr ((tid, t) # ts')))"

text \<open>Wait until some thread triggers a breakpoint: \<open>Inr None\<close> when \<^verbatim>\<open>server_die\<close> is
  seen, \<open>Inr (Some (tid, ts))\<close> when the thread \<open>tid\<close> of the table \<open>ts\<close> is suspended at a
  breakpoint. \<open>die\<close> is the flag as the handler finds it on entry.\<close>

fun wait_break :: "bool \<Rightarrow> (bool \<times> (SceUID \<times> ThreadState) list) list
    \<Rightarrow> fault + (SceUID \<times> (SceUID \<times> ThreadState) list) option" where
  "wait_break die [] = (if die then Inr None else Inl NeverReturns)"
| "wait_break die ((d, ts) # ps) =
     (if die \<or> d then Inr None
      else
        (case find (\<lambda>(tid, t). status t = suspend \<and> hit_breakpoint (cpu t)) ts of
           Some (tid, t) \<Rightarrow> Inr (Some (tid, ts))
         | None \<Rightarrow> wait_break die ps))"

text \<open>Stop the world: every thread found running is suspended, and the loop waits until
  it is suspended or dormant.\<close>

fun stop_world :: "Env \<Rightarrow> (SceUID \<times> ThreadState) list \<Rightarrow> fault + (SceUID \<times> ThreadState) list" where
  "stop_world env [] = Inr []"
| "stop_world env ((tid, t) # ts) =
     (if status t = run then
        (case suspend_thread env tid t of
           None \<Rightarrow> Inl NeverReturns
         | Some t' \<Rightarrow>
             if status t' = suspend \<or> status t' = dormant then
               (case stop_world env ts of Inl e \<Rightarrow> Inl e | Inr ts' \<Rightarrow> Inr ((tid, t') # ts'))
             else Inl NeverReturns)
      else (case stop_world env ts of Inl e \<Rightarrow> Inl e | Inr ts' \<Rightarrow> Inr ((tid, t) # ts')))"

text \<open>The case \<^verbatim>\<open>'c'\<close>, \<^verbatim>\<open>'C'\<close>, \<^verbatim>\<open>'s'\<close>, \<^verbatim>\<open>'S'\<close> of the switch in \<^verbatim>\<open>cmd_continue\<close>.\<close>

definition vcont_action :: "Env \<Rightarrow> EmuEnvState \<Rightarrow> bool \<Rightarrow> reply" where
  "vcont_action env state step =
     (case resume_inferior env state step of
        Inl e \<Rightarrow> Inl e
      | Inr state1 \<Rightarrow>
          if \<not> step then
            (case resume_world env (threads (kernel state1)) of
               Inl e \<Rightarrow> Inl e
             | Inr ts1 \<Rightarrow>
                 (case wait_break (server_die (gdb state1)) (polls env) of
                    Inl e \<Rightarrow> Inl e
                  | Inr None \<Rightarrow>
                      Inr ([], state1\<lparr>gdb := (gdb state1)\<lparr>server_die := True\<rparr>,
                                      kernel := (kernel state1)\<lparr>threads := ts1\<rparr>\<rparr>)
                  | Inr (Some (tid, ts2)) \<Rightarrow>
                      (case map_of ts2 tid of
                         None \<Rightarrow> Inl NullDeref
                       | Some t \<Rightarrow>
                           (case stop_world env ts2 of
                              Inl e \<Rightarrow> Inl e
                            | Inr ts3 \<Rightarrow>
                                Inr (''S05'',
                                     state1\<lparr>gdb := (gdb state1)\<lparr>inferior_thread := tid,
                                                                 current_thread := tid\<rparr>,
                                            kernel := (kernel state1)\<lparr>threads := ts3\<rparr>\<rparr>)))))
          else
            Inr (''S05'', state1\<lparr>gdb := (gdb state1)\<lparr>current_thread := inferior_thread (gdb state1)\<rparr>\<rparr>))"

text \<open>The \<^verbatim>\<open>do ... while\<close> loop of \<^verbatim>\<open>cmd_continue\<close> over the actions, from \<open>index\<close>.
  \<^verbatim>\<open>text[0]\<close> of an empty string is the zero byte.\<close>

function cmd_continue_loop :: "Env \<Rightarrow> EmuEnvState \<Rightarrow> string \<Rightarrow> nat \<Rightarrow> reply" where
  "cmd_continue_loop env state content index =
     (let next = find_from content CHR '';'' (index + 1)
      in case substr content (index + 1) (next - index - 1) of
           Inl e \<Rightarrow> Inl e
         | Inr text \<Rightarrow>
             (let cmd = (case text of [] \<Rightarrow> CHR 0x00 | c # cs \<Rightarrow> c)
              in if cmd = CHR ''c'' \<or> cmd = CHR ''C'' \<or> cmd = CHR ''s'' \<or> cmd = CHR ''S''
                 then vcont_action env state (cmd = CHR ''s'' \<or> cmd = CHR ''S'')
                 else if next \<noteq> npos then cmd_continue_loop env state content next
                 else Inr ([], state)))"
  by pat_completeness auto
termination
  by (relation "measure (\<lambda>(env, state, content, index). length content - index)")
     (auto simp: find_from_def Let_def split: if_splits)

definition cmd_continue :: "Env \<Rightarrow> EmuEnvState \<Rightarrow> PacketCommand \<Rightarrow> reply" where
  "cmd_continue env state command = cmd_continue_loop env state (content_string command) 5"

subsection \<open>Dispatch and the session step\<close>

definition packet_functions :: "Env \<Rightarrow> (string \<times> (EmuEnvState \<Rightarrow> PacketCommand \<Rightarrow> reply)) list" where
  "packet_functions env =
     [(''!'', cmd_unimplemented), (''?'', cmd_reason), (''H'', cmd_set_current_thread),
      (''T'', cmd_thread_alive), (''i'', cmd_unimplemented), (''I'', cmd_unimplemented),
      (''A'', cmd_unimplemented), (''bc'', cmd_unimplemented), (''bs'', cmd_unimplemented),
      (''t'', cmd_unimplemented),
      (''p'', cmd_read_register), (''P'', cmd_write_register), (''g'', cmd_read_registers),
      (''G'', cmd_write_registers), (''m'', cmd_read_memory), (''M'', cmd_write_memory),
      (''X'', cmd_unimplemented),
      (''qfThreadInfo'', cmd_get_first_thread), (''qsThreadInfo'', cmd_get_next_thread),
      (''qSupported'', cmd_supported), (''qAttached'', cmd_attached),
      (''qTStatus'', cmd_thread_status), (''qC'', cmd_get_current_thread),
      (''q'', cmd_unimplemented), (''Q'', cmd_unimplemented),
      (''d'', cmd_unimplemented), (''r'', cmd_unimplemented), (''R'', cmd_unimplemented),
      (''k'', cmd_die),
      (''vCont?'', cmd_continue_supported), (''vCont'', cmd_continue env),
      (''vKill'', cmd_kill), (''vMustReplyEmpty'', cmd_reply_empty), (''v'', cmd_unimplemented),
      (''z'', cmd_remove_breakpoint), (''Z'', cmd_add_breakpoint),
      (''b'', cmd_deprecated), (''B'', cmd_deprecated), (''c'', cmd_deprecated),
      (''C'', cmd_deprecated), (''s'', cmd_deprecated), (''S'', cmd_deprecated)]"

definition command_begins_with :: "PacketCommand \<Rightarrow> string \<Rightarrow> bool" where
  "command_begins_with command small_str =
     (if nat (content_length command) < length small_str then False
      else take (length small_str) (drop (nat (begin_index command)) (data command)) = small_str)"

text \<open>The search of \<^verbatim>\<open>server_next\<close> for the \<^verbatim>\<open>#\<close> that ends the packet: the first index
  \<open>i\<close> from \<open>pos + 1\<close> with \<open>i + 2\<close> below the size of the buffer that holds \<^verbatim>\<open>#\<close>.\<close>

definition find_hash :: "string \<Rightarrow> nat \<Rightarrow> nat option" where
  "find_hash buf pos =
     (let seg = drop (pos + 1) (take (length buf - 2) buf);
          k = length (takeWhile (\<lambda>c. c \<noteq> CHR ''#'') seg)
      in if k < length seg then Some (pos + 1 + k) else None)"

text \<open>The body of the \<^verbatim>\<open>$\<close> branch once the packet is complete: acknowledge, parse,
  dispatch, reply.\<close>

definition handle_packet :: "Env \<Rightarrow> EmuEnvState \<Rightarrow> string \<Rightarrow> nat \<Rightarrow> nat \<Rightarrow> fault + EmuEnvState" where
  "handle_packet env state buf pos hash_index =
     (let state1 = state\<lparr>gdb := server_ack (gdb state) CHR ''+''\<rparr>;
          packet_len = (hash_index + 3) - pos;
          command = parse_command (drop pos buf) (int packet_len)
      in if is_valid command then
           (case find (\<lambda>(name, f). command_begins_with command name) (packet_functions env) of
              Some (name, f) \<Rightarrow>
                (case f state1 command of
                   Inl e \<Rightarrow> Inl e
                 | Inr (r, state2) \<Rightarrow>
                     (let state3 = state2\<lparr>gdb := (gdb state2)\<lparr>last_reply := r\<rparr>\<rparr>
                      in if server_die (gdb state3) then Inr state3
                         else Inr (state3\<lparr>gdb := server_reply_text (gdb state3)
                                                   (c_str (last_reply (gdb state3)))\<rparr>)))
            | None \<Rightarrow>
                (let state3 = state1\<lparr>gdb := (gdb state1)\<lparr>last_reply := []\<rparr>\<rparr>
                 in Inr (state3\<lparr>gdb := server_reply_text (gdb state3)
                                           (c_str (last_reply (gdb state3)))\<rparr>)))
         else Inr (state1\<lparr>gdb := server_ack (gdb state1) CHR ''-''\<rparr>))"

text \<open>The loop of \<^verbatim>\<open>server_next\<close> over the receive buffer from \<open>pos\<close>; it returns the
  state and the position reached.\<close>

function server_loop :: "Env \<Rightarrow> string \<Rightarrow> EmuEnvState \<Rightarrow> nat \<Rightarrow> fault + (EmuEnvState \<times> nat)" where
  "server_loop env buf state pos =
     (if pos < length buf then
        (let c = buf ! pos
         in if c = CHR ''+'' then server_loop env buf state (pos + 1)
            else if c = CHR ''-'' then
              server_loop env buf
                (state\<lparr>gdb := server_reply_text (gdb state) (c_str (last_reply (gdb state)))\<rparr>)
                (pos + 1)
            else if c = CHR ''$'' then
              (case find_hash buf pos of
                 None \<Rightarrow> Inr (state, pos)
               | Some hash_index \<Rightarrow>
                   if hash_index + 2 \<ge> length buf then Inr (state, pos)
                   else
                     (case handle_packet env state buf pos hash_index of
                        Inl e \<Rightarrow> Inl e
                      | Inr state' \<Rightarrow> server_loop env buf state' (pos + ((hash_index + 3) - pos))))
            else server_loop env buf state (pos + 1))
      else Inr (state, pos))"
  by pat_completeness auto
termination
  by (relation "measure (\<lambda>(env, buf, state, pos). length buf - pos)")
     (auto simp: find_hash_def Let_def split: if_splits)

text \<open>\<^verbatim>\<open>server_next\<close> once \<^verbatim>\<open>select\<close> has returned: \<open>recv_buffer\<close> is the static
  buffer, \<open>temp\<close> the bytes that \<^verbatim>\<open>recv\<close> delivers (none when it returns 0 or fails).
  The result is the status, the state and the buffer left.\<close>

definition server_next :: "Env \<Rightarrow> string \<Rightarrow> EmuEnvState \<Rightarrow> string
    \<Rightarrow> fault + (int \<times> EmuEnvState \<times> string)" where
  "server_next env recv_buffer state temp =
     (if server_die (gdb state) then Inr (- 1, state, recv_buffer)
      else if length temp = 0 then Inr (- 1, state, recv_buffer)
      else
        (case server_loop env (recv_buffer @ temp) state 0 of
           Inl e \<Rightarrow> Inl e
         | Inr (state', pos) \<Rightarrow>
             Inr (int (length temp), state', drop pos (recv_buffer @ temp))))"

declare server_loop.simps [simp del]
declare cmd_continue_loop.simps [simp del]

text \<open>The digits that \<^verbatim>\<open>fmt\<close> writes for the presentation type \<^verbatim>\<open>x\<close>.\<close>

definition is_lower_hex :: "char \<Rightarrow> bool" where
  "is_lower_hex c = (c \<in> set ''0123456789abcdef'')"

subsection \<open>A debugger session that lists the threads\<close>

text \<open>The client sends \<^verbatim>\<open>qsThreadInfo\<close> until the reply is \<^verbatim>\<open>l\<close>, at most \<open>fuel\<close> times;
  \<open>None\<close> when the fuel runs out first.\<close>

fun next_threads :: "nat \<Rightarrow> EmuEnvState \<Rightarrow> PacketCommand
    \<Rightarrow> (fault + (string list \<times> EmuEnvState)) option" where
  "next_threads 0 state command = None"
| "next_threads (Suc fuel) state command =
     (case cmd_get_next_thread state command of
        Inl e \<Rightarrow> Some (Inl e)
      | Inr (r, state') \<Rightarrow>
          if r = ''l'' then Some (Inr ([r], state'))
          else
            (case next_threads fuel state' command of
               None \<Rightarrow> None
             | Some (Inl e) \<Rightarrow> Some (Inl e)
             | Some (Inr (rs, state'')) \<Rightarrow> Some (Inr (r # rs, state''))))"

text \<open>\<^verbatim>\<open>qfThreadInfo\<close>, then \<^verbatim>\<open>qsThreadInfo\<close> until \<^verbatim>\<open>l\<close>: the replies in order.\<close>

definition thread_enumeration :: "nat \<Rightarrow> EmuEnvState \<Rightarrow> PacketCommand
    \<Rightarrow> (fault + (string list \<times> EmuEnvState)) option" where
  "thread_enumeration fuel state command =
     (case cmd_get_first_thread state command of
        Inl e \<Rightarrow> Some (Inl e)
      | Inr (r, state') \<Rightarrow>
          (case next_threads fuel state' command of
             None \<Rightarrow> None
           | Some (Inl e) \<Rightarrow> Some (Inl e)
           | Some (Inr (rs, state'')) \<Rightarrow> Some (Inr (r # rs, state''))))"

subsection \<open>Sample states\<close>

definition sample_cpu :: CPUState where
  "sample_cpu =
     \<lparr>cpu_reg = (\<lambda>r. r + 1), cpu_sp = 0x100, cpu_lr = 0x200, cpu_pc = 0x12345678,
      cpu_float_reg = (\<lambda>r. 0x3F800000), cpu_fpscr = 5, cpu_cpsr = 0x10, hit_breakpoint = False\<rparr>"

text \<open>Pages of 4 KiB, of which only the page of the address \<^verbatim>\<open>0x10000\<close> is valid.\<close>

definition sample_mem :: MemState where
  "sample_mem =
     \<lparr>page_size = 0x1000, page_valid = (\<lambda>p. p = 16), memory = (\<lambda>a. ucast a), elf_base = 0\<rparr>"

definition sample_thread :: ThreadState where
  "sample_thread = \<lparr>status = suspend, cpu = sample_cpu\<rparr>"

text \<open>One live thread with the id \<^verbatim>\<open>0x2a\<close>, no thread selected, nothing sent so far.\<close>

definition sample_state :: EmuEnvState where
  "sample_state =
     \<lparr>gdb = \<lparr>server_die = False, last_reply = [], current_thread = - 1,
             inferior_thread = 0, thread_info_index = 0, sent = []\<rparr>,
      kernel = \<lparr>threads = [(0x2a, sample_thread)], debugger = []\<rparr>,
      mem = sample_mem\<rparr>"

text \<open>The same with no thread, with two threads, and with the thread \<^verbatim>\<open>0x2a\<close> selected.\<close>

definition sample_state_empty :: EmuEnvState where
  "sample_state_empty = sample_state\<lparr>kernel := \<lparr>threads = [], debugger = []\<rparr>\<rparr>"

definition sample_state_two :: EmuEnvState where
  "sample_state_two =
     sample_state\<lparr>kernel := \<lparr>threads = [(0x2a, sample_thread), (0x2b, sample_thread)], debugger = []\<rparr>\<rparr>"

definition sample_state_selected :: EmuEnvState where
  "sample_state_selected = sample_state\<lparr>gdb := (gdb sample_state)\<lparr>current_thread := 0x2a\<rparr>\<rparr>"

text \<open>Guest threads that follow every request at once; no poll is observed.\<close>

definition sample_env :: Env where
  "sample_env =
     \<lparr>resume_thread = (\<lambda>step tid t. Some (t\<lparr>status := (if step then suspend else run)\<rparr>)),
      suspend_thread = (\<lambda>tid t. Some (t\<lparr>status := suspend\<rparr>)),
      polls = []\<rparr>"

subsection \<open>The body of a \<^verbatim>\<open>vCont\<close> packet\<close>

text \<open>The body is \<^verbatim>\<open>vCont\<close> and a sequence of actions, each behind a \<^verbatim>\<open>;\<close>. The letter
  of an action is its first byte; the handler knows the letters \<^verbatim>\<open>c\<close>, \<^verbatim>\<open>C\<close>, \<^verbatim>\<open>s\<close>
  and \<^verbatim>\<open>S\<close>.\<close>

definition actions_string :: "string list \<Rightarrow> string" where
  "actions_string acts = concat (map (\<lambda>a. CHR '';'' # a) acts)"

definition action_letter :: "string \<Rightarrow> char" where
  "action_letter a = (case a of [] \<Rightarrow> CHR 0x00 | c # cs \<Rightarrow> c)"

definition supported_action :: "string \<Rightarrow> bool" where
  "supported_action a =
     (action_letter a = CHR ''c'' \<or> action_letter a = CHR ''C''
      \<or> action_letter a = CHR ''s'' \<or> action_letter a = CHR ''S'')"

subsection \<open>Sample states of the controller\<close>

text \<open>The thread \<^verbatim>\<open>0x2a\<close> has stopped before; a shutdown that the first poll sees; a
  breakpoint that the second poll sees.\<close>

definition sample_state_stopped :: EmuEnvState where
  "sample_state_stopped = sample_state\<lparr>gdb := (gdb sample_state)\<lparr>inferior_thread := 0x2a\<rparr>\<rparr>"

definition sample_env_dying :: Env where
  "sample_env_dying = sample_env\<lparr>polls := [(True, [])]\<rparr>"

definition sample_env_break :: Env where
  "sample_env_break =
     sample_env\<lparr>polls :=
       [(False, [(0x2a, \<lparr>status = run, cpu = sample_cpu\<rparr>)]),
        (False, [(0x2a, \<lparr>status = suspend, cpu = sample_cpu\<lparr>hit_breakpoint := True\<rparr>\<rparr>)])]\<rparr>"

section \<open>Properties of the codec\<close>

lemma of_char_word: "(of_char c :: 'a::len word) = of_nat (of_char c)"
  by (simp add: of_nat_of_char)

lemma unat_of_char64: "unat (of_char c :: 64 word) = of_char c"
proof -
  have "(of_char c :: nat) < 256" by simp
  also have "\<dots> < 2 ^ 64" by simp
  finally have "(of_char c :: nat) mod 2 ^ 64 = of_char c" by (rule mod_less)
  then show ?thesis
    by (simp only: of_char_word [of c] unat_of_nat) simp
qed

lemma unat_sub256:
  assumes "n < 256" shows "unat ((of_nat n :: 64 word) - 256) mod 256 = n"
proof -
  have n: "unat (of_nat n :: 64 word) = n"
    using assms by (simp add: unat_of_nat)
  have "unat ((of_nat n :: 64 word) - 256) = n + 2 ^ 64 - 256"
    using assms by (simp add: unat_sub_if' n)
  also have "\<dots> = n + 256 * (2 ^ 56 - 1)" by simp
  finally have "unat ((of_nat n :: 64 word) - 256) mod 256 = n mod 256"
    by (simp only: mod_mult_self2)
  with assms show ?thesis by simp
qed

text \<open>The sign extension of a byte changes the sum by a multiple of 256 only.\<close>

lemma char_to_size_t_mod: "unat (char_to_size_t c) mod 256 = of_char c"
proof (cases "(of_char c :: nat) < 128")
  case True
  then show ?thesis by (simp add: char_to_size_t_def unat_of_char64)
next
  case False
  have "unat ((of_nat (of_char c) :: 64 word) - 256) mod 256 = of_char c"
    by (rule unat_sub256) simp
  with False show ?thesis by (simp add: char_to_size_t_def of_nat_of_char)
qed

lemma unat_add_mod256: "unat (a + b :: 64 word) mod 256 = (unat a + unat b mod 256) mod 256"
proof -
  have "unat (a + b) = (unat a + unat b) mod 2 ^ 64"
    by (simp add: unat_word_ariths)
  moreover have "(256::nat) dvd 2 ^ 64" by simp
  ultimately have "unat (a + b) mod 256 = (unat a + unat b) mod 256"
    by (simp add: mod_mod_cancel)
  then show ?thesis by (simp add: mod_simps)
qed

lemma checksum_loop_mod:
  "unat (foldl (\<lambda>sum c. sum + char_to_size_t c) acc xs) mod 256
     = (unat acc + sum_list (map of_char xs)) mod 256"
proof (induction xs arbitrary: acc)
  case Nil
  show ?case by simp
next
  case (Cons x xs)
  have "unat (foldl (\<lambda>sum c. sum + char_to_size_t c) acc (x # xs)) mod 256
        = (unat (acc + char_to_size_t x) + sum_list (map of_char xs)) mod 256"
    using Cons.IH [of "acc + char_to_size_t x"] by simp
  also have "\<dots> = (unat (acc + char_to_size_t x) mod 256 + sum_list (map of_char xs)) mod 256"
    by (simp add: mod_simps)
  also have "\<dots> = ((unat acc + of_char x) mod 256 + sum_list (map of_char xs)) mod 256"
    by (simp only: unat_add_mod256 char_to_size_t_mod)
  also have "\<dots> = (unat acc + sum_list (map of_char (x # xs))) mod 256"
    by (simp add: mod_simps add.assoc)
  finally show ?case .
qed

lemma make_checksum_unat:
  "unat (make_checksum d len) = sum_list (map of_char (take (nat len) d)) mod 256"
proof -
  have "unat (make_checksum d len)
        = unat (foldl (\<lambda>sum c. sum + char_to_size_t c) (0 :: 64 word) (take (nat len) d)) mod 256"
    by (simp add: make_checksum_def unsigned_ucast_eq unat_mod take_bit_eq_mod)
  then show ?thesis by (simp add: checksum_loop_mod)
qed

text \<open>
  Claim C8. For every byte string \<open>b\<close>, the checksum of \<open>b\<close> is the sum of the bytes of
  \<open>b\<close>, read as unsigned values, modulo 256 (although the loop adds them as signed chars
  into a 64-bit sum).
\<close>

theorem make_checksum_sum_mod_256:
  "unat (make_checksum b (int (length b))) = sum_list (map of_char b) mod 256"
  by (simp add: make_checksum_unat)

subsection \<open>Hex digits\<close>

lemma is_lower_hex_cases:
  assumes "is_lower_hex c"
  shows "hex_val c \<noteq> None" "\<not> is_space c" "c \<noteq> CHR ''-''" "c \<noteq> CHR ''+''"
    "c \<noteq> CHR ''x''" "c \<noteq> CHR ''X''" "c \<noteq> CHR 0x00" "c \<noteq> CHR ''#''" "c \<noteq> CHR '',''"
    "c \<noteq> CHR ''$''"
  using assms unfolding is_lower_hex_def
  by (auto simp: hex_val_def is_space_def)

lemma hex_digit_lower: "d < 16 \<Longrightarrow> is_lower_hex (hex_digit d)"
  unfolding is_lower_hex_def hex_digit_def by (rule nth_mem) simp

lemma lt16_cases: "(d::nat) < 16 \<Longrightarrow> d \<in> {0,1,2,3,4,5,6,7,8,9,10,11,12,13,14,15}"
  by simp presburger

lemma hex_val_digit: "d < 16 \<Longrightarrow> hex_val (hex_digit d) = Some d"
  by (drule lt16_cases) (auto simp: hex_val_def hex_digit_def)

lemma hex_digits_lower: "\<forall>c \<in> set (hex_digits n). is_lower_hex c"
proof (induction n rule: hex_digits.induct)
  case (1 n)
  show ?case
  proof (cases "n < 16")
    case True
    then show ?thesis by (simp add: hex_digits.simps [of n] hex_digit_lower)
  next
    case False
    then show ?thesis using 1 by (simp add: hex_digits.simps [of n] hex_digit_lower)
  qed
qed

lemma hex_digits_nonempty: "hex_digits n \<noteq> []"
  by (simp add: hex_digits.simps [of n])

lemma hex_digits_length: "0 < k \<Longrightarrow> n < 16 ^ k \<Longrightarrow> length (hex_digits n) \<le> k"
proof (induction n arbitrary: k rule: hex_digits.induct)
  case (1 n)
  show ?case
  proof (cases "n < 16")
    case True
    with 1(2) show ?thesis by (simp add: hex_digits.simps [of n])
  next
    case False
    with 1(3) have "1 < k" by (cases "k = 1") (use 1(2) in auto)
    then obtain j where k: "k = Suc j" "0 < j" by (cases k) auto
    from 1(3) k have "n div 16 < 16 ^ j" by (simp add: less_mult_imp_div_less mult.commute)
    from 1(1) [OF False k(2) this] k False show ?thesis
      by (simp add: hex_digits.simps [of n])
  qed
qed

lemma hex_accum_append:
  "\<forall>c \<in> set xs. hex_val c \<noteq> None \<Longrightarrow> hex_accum acc (xs @ ys) = hex_accum (hex_accum acc xs) ys"
  by (induction xs arbitrary: acc) auto

lemma hex_accum_digits: "hex_accum acc (hex_digits n) = acc * 16 ^ length (hex_digits n) + n"
proof (induction n arbitrary: acc rule: hex_digits.induct)
  case (1 n)
  show ?case
  proof (cases "n < 16")
    case True
    then show ?thesis by (simp add: hex_digits.simps [of n] hex_val_digit)
  next
    case False
    have lower: "\<forall>c \<in> set (hex_digits (n div 16)). hex_val c \<noteq> None"
      using hex_digits_lower is_lower_hex_cases(1) by blast
    have "hex_accum acc (hex_digits n)
          = hex_accum (hex_accum acc (hex_digits (n div 16))) [hex_digit (n mod 16)]"
      using False by (simp add: hex_digits.simps [of n] hex_accum_append [OF lower])
    also have "\<dots> = (acc * 16 ^ length (hex_digits (n div 16)) + n div 16) * 16 + n mod 16"
      using False by (simp add: 1 hex_val_digit)
    also have "\<dots> = acc * 16 ^ length (hex_digits n) + n"
      using False by (simp add: hex_digits.simps [of n] algebra_simps)
    finally show ?thesis .
  qed
qed

lemma hex_accum_zeros: "hex_accum 0 (replicate k CHR ''0'' @ s) = hex_accum 0 s"
  by (induction k) (simp_all add: hex_val_def)

lemma hex_accum_pad: "hex_accum 0 (pad_left w CHR ''0'' (hex_digits n)) = n"
  by (simp add: pad_left_def hex_accum_zeros hex_accum_digits)

lemma pad_left_lower:
  assumes low: "\<forall>c \<in> set s. is_lower_hex c" and mem: "c \<in> set (pad_left w CHR ''0'' s)"
  shows "is_lower_hex c"
proof -
  from mem have "c = CHR ''0'' \<or> c \<in> set s" by (auto simp: pad_left_def)
  moreover have "is_lower_hex CHR ''0''" by (simp add: is_lower_hex_def)
  ultimately show "is_lower_hex c" using low by blast
qed

lemma pad_left_nonempty: "s \<noteq> [] \<Longrightarrow> pad_left w c s \<noteq> []"
  by (simp add: pad_left_def)

lemma pad_left_length: "length s \<le> w \<Longrightarrow> length (pad_left w c s) = w"
  by (simp add: pad_left_def)

lemma strtoul16_one:
  assumes c0: "is_lower_hex c0"
  shows "strtoul16 [c0] = min (hex_accum 0 [c0]) ULONG_MAX"
  using is_lower_hex_cases(2,3,4) [OF c0]
  by (simp add: strtoul16_def Let_def min_def)

lemma strtoul16_two:
  assumes c0: "is_lower_hex c0" and cx: "is_lower_hex cx"
  shows "strtoul16 (c0 # cx # rest) = min (hex_accum 0 (c0 # cx # rest)) ULONG_MAX"
  using is_lower_hex_cases(2,3,4) [OF c0] is_lower_hex_cases(5,6) [OF cx]
  by (simp add: strtoul16_def Let_def min_def)

text \<open>On a string of lowercase hex digits \<^verbatim>\<open>strtoul\<close> finds no white space, sign or
  prefix, and reads every digit.\<close>

lemma strtoul16_lower_hex:
  assumes "s \<noteq> []" and low: "\<forall>c \<in> set s. is_lower_hex c"
  shows "strtoul16 s = min (hex_accum 0 s) ULONG_MAX"
proof (cases s)
  case Nil
  with assms show ?thesis by simp
next
  case (Cons c0 t)
  show ?thesis
  proof (cases t)
    case Nil
    with \<open>s = c0 # t\<close> low show ?thesis by (simp add: strtoul16_one)
  next
    case (Cons cx rest)
    with \<open>s = c0 # t\<close> low show ?thesis by (simp add: strtoul16_two)
  qed
qed

lemma c_str_lower_hex: "\<forall>c \<in> set s. is_lower_hex c \<Longrightarrow> c_str s = s"
  unfolding c_str_def using is_lower_hex_cases(7) by (simp add: takeWhile_eq_all_conv)

lemma to_hex_lower: "\<forall>c \<in> set (to_hex v). is_lower_hex c"
  unfolding to_hex_def using pad_left_lower [OF hex_digits_lower] by blast

lemma hex2_lower: "\<forall>c \<in> set (hex2 v). is_lower_hex c"
  unfolding hex2_def using pad_left_lower [OF hex_digits_lower] by blast

lemma unat32_le_ULONG_MAX: "unat (v :: 32 word) \<le> ULONG_MAX"
proof -
  have "unat v < 2 ^ 32" using unsigned_less [of v, where 'a = nat] by simp
  also have "(2 :: nat) ^ 32 \<le> 2 ^ 64 - 1" by simp
  finally show ?thesis unfolding ULONG_MAX_def by simp
qed

lemma parse_hex_to_hex: "parse_hex (to_hex v) = v"
proof -
  have ne: "to_hex v \<noteq> []"
    by (simp add: to_hex_def pad_left_nonempty hex_digits_nonempty)
  have "hex_accum 0 (to_hex v) = unat v"
    unfolding to_hex_def by (rule hex_accum_pad)
  then have "strtoul16 (to_hex v) = min (unat v) ULONG_MAX"
    using strtoul16_lower_hex [OF ne to_hex_lower] by simp
  then have "strtoul16 (to_hex v) = unat v"
    using unat32_le_ULONG_MAX [of v] by simp
  then show ?thesis
    by (simp add: parse_hex_def c_str_lower_hex [OF to_hex_lower])
qed

lemma parse_hex_hex2: "(ucast (parse_hex (hex2 v)) :: 8 word) = v"
proof -
  have ne: "hex2 v \<noteq> []"
    by (simp add: hex2_def pad_left_nonempty hex_digits_nonempty)
  have "hex_accum 0 (hex2 v) = unat v"
    unfolding hex2_def by (rule hex_accum_pad)
  then have "strtoul16 (hex2 v) = min (unat v) ULONG_MAX"
    using strtoul16_lower_hex [OF ne hex2_lower] by simp
  moreover have "unat v \<le> ULONG_MAX"
  proof -
    have "unat v < 2 ^ 8" using unsigned_less [of v, where 'a = nat] by simp
    then show ?thesis by (simp add: ULONG_MAX_def)
  qed
  ultimately have "strtoul16 (hex2 v) = unat v" by simp
  then have "parse_hex (hex2 v) = ucast v"
    by (simp add: parse_hex_def c_str_lower_hex [OF hex2_lower])
  moreover have "(ucast (ucast v :: 32 word) :: 8 word) = v"
    by (rule bit_word_eqI) (auto simp: bit_simps)
  ultimately show ?thesis by simp
qed

lemma hex2_length: "length (hex2 v) = 2"
proof -
  have "unat v < 2 ^ 8" using unsigned_less [of v, where 'a = nat] by simp
  then have "unat v < 16 ^ 2" by simp
  then have "length (hex_digits (unat v)) \<le> 2" by (intro hex_digits_length) simp_all
  then show ?thesis by (simp add: hex2_def pad_left_length)
qed

lemma to_hex_length: "length (to_hex v) = 8"
proof -
  have "unat v < 2 ^ 32" using unsigned_less [of v, where 'a = nat] by simp
  then have "unat v < 16 ^ 8" by simp
  then have "length (hex_digits (unat v)) \<le> 8" by (intro hex_digits_length) simp_all
  then show ?thesis by (simp add: to_hex_def pad_left_length)
qed

lemma mask_255: "(0xFF :: 32 word) = mask 8"
  by (simp add: mask_eq_exp_minus_1)

lemma mask_65280: "(0xFF00 :: 32 word) = push_bit 8 (mask 8)"
  by (simp add: mask_eq_exp_minus_1 push_bit_eq_mult)

lemma bit_index_shift:
  "8 \<le> n \<Longrightarrow> 16 + (n - 8) = 8 + (n::nat)" "16 \<le> n \<Longrightarrow> 8 + (n - 16) = n - 8"
  by arith+

text \<open>On the little-endian host \<^verbatim>\<open>htonl\<close> is the byte swap.\<close>

lemma htonl_byteswap32: "htonl v = byteswap32 v"
proof (rule bit_word_eqI)
  fix n assume "n < LENGTH(32)"
  then have n: "n < 32" by simp
  have hi: "\<not> bit v m" if "32 \<le> m" for m
    using that bit_imp_le_length [of v m] by auto
  consider "n < 8" | "8 \<le> n" "n < 16" | "16 \<le> n" "n < 24" | "24 \<le> n"
    by linarith
  then show "bit (htonl v) n = bit (byteswap32 v) n"
  proof cases
    case 1
    then show ?thesis unfolding htonl_def byteswap32_def be_bytes_def mask_255 mask_65280
      by (auto simp add: bit_simps hi)
  next
    case 2
    then show ?thesis unfolding htonl_def byteswap32_def be_bytes_def mask_255 mask_65280
      by (auto simp add: bit_simps bit_index_shift hi)
  next
    case 3
    then show ?thesis unfolding htonl_def byteswap32_def be_bytes_def mask_255 mask_65280
      by (auto simp add: bit_simps bit_index_shift hi)
  next
    case 4
    then show ?thesis using n unfolding htonl_def byteswap32_def be_bytes_def mask_255 mask_65280
      by (auto simp add: bit_simps bit_index_shift hi)
  qed
qed

text \<open>
  Claim C9. For every 32-bit value \<open>v\<close>, parsing the eight hex digits of \<open>v\<close> gives \<open>v\<close>
  back, and the register encoding \<^verbatim>\<open>be_hex\<close> of \<open>v\<close> is the plain hex encoding of the
  byte-swapped value.
\<close>

theorem hex_codec_roundtrip_and_byteswap:
  "parse_hex (to_hex v) = v \<and> be_hex v = to_hex (byteswap32 v)"
  by (simp add: parse_hex_to_hex be_hex_def htonl_byteswap32)

section \<open>Handlers of the register and thread packets\<close>

lemma replicate_numeral: "replicate (numeral n) x = x # replicate (pred_numeral n) x"
  by (simp add: numeral_eq_Suc)

lemmas hex_eval = to_hex_def to_hex_uid_def hex2_def pad_left_def hex_digits.simps hex_digit_def
  replicate_numeral

lemma to_hex_uid_samples: "to_hex_uid 0x2a = ''0000002a''" "to_hex_uid 0x2b = ''0000002b''"
  by (simp_all add: hex_eval)

text \<open>
  Claim C10. The handler of \<^verbatim>\<open>qfThreadInfo\<close> reads the first entry of the thread table
  without looking whether there is one: for the empty table the read is past the end and the
  handler produces no reply at all (neither \<^verbatim>\<open>l\<close> nor \<^verbatim>\<open>E00\<close>); for a table with a
  first entry it resets the cursor and replies \<^verbatim>\<open>m\<close> and the id in hex.
\<close>

theorem first_thread_dereferences_begin:
  "(threads (kernel state) = [] \<longrightarrow> cmd_get_first_thread state command = Inl PastTheEnd)
   \<and> (\<forall>tid t rest. threads (kernel state) = (tid, t) # rest \<longrightarrow>
        cmd_get_first_thread state command
          = Inr (CHR ''m'' # to_hex_uid tid, state\<lparr>gdb := (gdb state)\<lparr>thread_info_index := 0\<rparr>\<rparr>))"
  by (simp add: cmd_get_first_thread_def)

theorem first_thread_dereferences_begin_witness:
  "threads (kernel sample_state_empty) = []
   \<and> cmd_get_first_thread sample_state_empty (parse_command ''$qfThreadInfo#bb'' 16) = Inl PastTheEnd
   \<and> threads (kernel sample_state) = [(0x2a, sample_thread)]
   \<and> cmd_get_first_thread sample_state (parse_command ''$qfThreadInfo#bb'' 16)
        = Inr (''m0000002a'', sample_state\<lparr>gdb := (gdb sample_state)\<lparr>thread_info_index := 0\<rparr>\<rparr>)"
proof -
  have e: "threads (kernel sample_state_empty) = []"
    by (simp add: sample_state_empty_def)
  have n: "threads (kernel sample_state) = [(0x2a, sample_thread)]"
    by (simp add: sample_state_def)
  from first_thread_dereferences_begin [of sample_state_empty "parse_command ''$qfThreadInfo#bb'' 16"]
    first_thread_dereferences_begin [of sample_state "parse_command ''$qfThreadInfo#bb'' 16"] e n
  show ?thesis by (simp add: to_hex_uid_samples)
qed

lemma next_threads_from:
  assumes "thread_info_index (gdb state) = i" and "i < length (threads (kernel state))"
    and "length (threads (kernel state)) - i \<le> fuel"
  shows "next_threads fuel state command
         = Some (Inr (map (\<lambda>(tid, t). CHR ''m'' # to_hex_uid tid) (drop (Suc i) (threads (kernel state)))
                        @ [''l''],
                      state\<lparr>gdb := (gdb state)\<lparr>thread_info_index := length (threads (kernel state))\<rparr>\<rparr>))"
  using assms
proof (induction fuel arbitrary: state i)
  case 0
  then show ?case by simp
next
  case (Suc fuel)
  let ?ts = "threads (kernel state)"
  let ?n = "length ?ts"
  show ?case
  proof (cases "Suc i = ?n")
    case True
    with Suc.prems show ?thesis
      by (simp add: cmd_get_next_thread_def)
  next
    case False
    with Suc.prems have lt: "Suc i < ?n" by simp
    let ?s1 = "state\<lparr>gdb := (gdb state)\<lparr>thread_info_index := Suc i\<rparr>\<rparr>"
    have step: "cmd_get_next_thread state command
                = Inr (CHR ''m'' # to_hex_uid (fst (?ts ! Suc i)), ?s1)"
      using Suc.prems False lt by (simp add: cmd_get_next_thread_def)
    have ih: "next_threads fuel ?s1 command
              = Some (Inr (map (\<lambda>(tid, t). CHR ''m'' # to_hex_uid tid) (drop (Suc (Suc i)) ?ts) @ [''l''],
                           ?s1\<lparr>gdb := (gdb ?s1)\<lparr>thread_info_index := ?n\<rparr>\<rparr>))"
      using Suc.IH [of ?s1 "Suc i"] Suc.prems lt by simp
    have d: "drop (Suc i) ?ts = (?ts ! Suc i) # drop (Suc (Suc i)) ?ts"
      using lt by (simp add: Cons_nth_drop_Suc)
    show ?thesis
      by (simp add: step ih d case_prod_unfold)
  qed
qed

text \<open>
  Claim C6. For every non-empty thread table (left alone during the enumeration),
  \<^verbatim>\<open>qfThreadInfo\<close> followed by \<^verbatim>\<open>qsThreadInfo\<close> until the reply \<^verbatim>\<open>l\<close> yields
  \<^verbatim>\<open>m\<close> and the id in hex for each entry of the table, once each and in the order of the
  table, then \<^verbatim>\<open>l\<close>; as many \<^verbatim>\<open>qsThreadInfo\<close> packets as the table has entries are enough.
\<close>

theorem thread_enumeration_lists_table:
  assumes "threads (kernel state) \<noteq> []" and "length (threads (kernel state)) \<le> fuel"
  shows "cmd_get_first_thread state command
         = Inr (CHR ''m'' # to_hex_uid (fst (hd (threads (kernel state)))),
                state\<lparr>gdb := (gdb state)\<lparr>thread_info_index := 0\<rparr>\<rparr>)
     \<and> thread_enumeration fuel state command
         = Some (Inr (map (\<lambda>(tid, t). CHR ''m'' # to_hex_uid tid) (threads (kernel state)) @ [''l''],
                      state\<lparr>gdb := (gdb state)\<lparr>thread_info_index := length (threads (kernel state))\<rparr>\<rparr>))"
proof -
  obtain tid t rest where ts: "threads (kernel state) = (tid, t) # rest"
    using assms(1) by (cases "threads (kernel state)") auto
  let ?s0 = "state\<lparr>gdb := (gdb state)\<lparr>thread_info_index := 0\<rparr>\<rparr>"
  have first: "cmd_get_first_thread state command = Inr (CHR ''m'' # to_hex_uid tid, ?s0)"
    by (simp add: cmd_get_first_thread_def ts)
  have "next_threads fuel ?s0 command
        = Some (Inr (map (\<lambda>(tid, t). CHR ''m'' # to_hex_uid tid) (drop (Suc 0) (threads (kernel ?s0))) @ [''l''],
                     ?s0\<lparr>gdb := (gdb ?s0)\<lparr>thread_info_index := length (threads (kernel ?s0))\<rparr>\<rparr>))"
    using assms ts by (intro next_threads_from) simp_all
  then show ?thesis
    by (simp add: thread_enumeration_def first ts)
qed

theorem thread_enumeration_lists_table_witness:
  "threads (kernel sample_state_two) \<noteq> []
   \<and> length (threads (kernel sample_state_two)) \<le> 5
   \<and> map_sum id fst (cmd_get_first_thread sample_state_two (parse_command ''$qfThreadInfo#bb'' 16))
       = Inr ''m0000002a''
   \<and> map_option (map_sum id fst)
         (thread_enumeration 5 sample_state_two (parse_command ''$qfThreadInfo#bb'' 16))
       = Some (Inr [''m0000002a'', ''m0000002b'', ''l''])"
proof -
  have ts: "threads (kernel sample_state_two) = [(0x2a, sample_thread), (0x2b, sample_thread)]"
    by (simp add: sample_state_two_def)
  then have ne: "threads (kernel sample_state_two) \<noteq> []"
    and le: "length (threads (kernel sample_state_two)) \<le> 5" by simp_all
  from thread_enumeration_lists_table [OF ne le, of "parse_command ''$qfThreadInfo#bb'' 16"] ne le
  show ?thesis by (simp add: ts to_hex_uid_samples)
qed

lemma read_registers_loop_numeral:
  "read_registers_loop c a (numeral n) (reads, str) =
     (let (rs, v) = fetch_reg c a
      in read_registers_loop c (a + 1) (pred_numeral n) (reads @ rs, str @ be_hex v))"
  by (simp add: numeral_eq_Suc)

lemma read_registers_16:
  "read_registers_loop c 0 16 ([], []) =
     (map read_reg [0, 1, 2, 3, 4, 5, 6, 7, 8, 9, 10, 11, 12] @ [read_sp, read_lr, read_pc],
      concat (map be_hex (map (cpu_reg c) [0, 1, 2, 3, 4, 5, 6, 7, 8, 9, 10, 11, 12]
                          @ [cpu_sp c, cpu_lr c, cpu_pc c])))"
  by (simp add: read_registers_loop_numeral fetch_reg_def)

lemma be_hex_length: "length (be_hex v) = 8"
  by (simp add: be_hex_def to_hex_length)

text \<open>
  Claim C7. The handler of \<^verbatim>\<open>g\<close> replies \<^verbatim>\<open>E00\<close>, having called no CPU primitive, when
  \<^verbatim>\<open>current_thread\<close> is -1 or is not a key of the thread table. Otherwise it calls the
  primitives of r0 to r12, sp, lr and pc, in this order and no other, and replies the 16 values,
  each as the eight hex digits of the byte-swapped value: 128 hex digits, with nothing of the
  float registers, fpscr or cpsr.
\<close>

theorem read_registers_reply:
  "(current_thread (gdb state) = - 1 \<or> current_thread (gdb state) \<notin> fst ` set (threads (kernel state))
      \<longrightarrow> cmd_read_registers_traced state command = Inr ([], ''E00'', state))
   \<and> (\<forall>t. current_thread (gdb state) \<noteq> - 1
          \<and> map_of (threads (kernel state)) (current_thread (gdb state)) = Some t \<longrightarrow>
        (\<exists>r. cmd_read_registers_traced state command
               = Inr (map read_reg [0, 1, 2, 3, 4, 5, 6, 7, 8, 9, 10, 11, 12] @ [read_sp, read_lr, read_pc],
                      r, state)
            \<and> r = concat (map (\<lambda>v. to_hex (byteswap32 v))
                     (map (cpu_reg (cpu t)) [0, 1, 2, 3, 4, 5, 6, 7, 8, 9, 10, 11, 12]
                      @ [cpu_sp (cpu t), cpu_lr (cpu t), cpu_pc (cpu t)]))
            \<and> length r = 128))
   \<and> cmd_read_registers state command
        = map_sum id snd (cmd_read_registers_traced state command)"
proof (intro conjI allI impI)
  assume "current_thread (gdb state) = - 1 \<or> current_thread (gdb state) \<notin> fst ` set (threads (kernel state))"
  then show "cmd_read_registers_traced state command = Inr ([], ''E00'', state)"
    by (auto simp: cmd_read_registers_traced_def thread_ok_def)
next
  fix t
  assume a: "current_thread (gdb state) \<noteq> - 1
     \<and> map_of (threads (kernel state)) (current_thread (gdb state)) = Some t"
  then have "current_thread (gdb state) \<in> fst ` set (threads (kernel state))"
    by (metis map_of_eq_None_iff option.distinct(1))
  with a have ok: "thread_ok state" by (simp add: thread_ok_def)
  let ?vs = "map (cpu_reg (cpu t)) [0, 1, 2, 3, 4, 5, 6, 7, 8, 9, 10, 11, 12]
                      @ [cpu_sp (cpu t), cpu_lr (cpu t), cpu_pc (cpu t)]"
  have be: "be_hex = (\<lambda>v. to_hex (byteswap32 v))"
    by (rule ext) (simp add: be_hex_def htonl_byteswap32)
  have "cmd_read_registers_traced state command
        = Inr (map read_reg [0, 1, 2, 3, 4, 5, 6, 7, 8, 9, 10, 11, 12] @ [read_sp, read_lr, read_pc],
               concat (map be_hex ?vs), state)"
    using a ok by (simp add: cmd_read_registers_traced_def read_registers_16)
  moreover have "length (concat (map be_hex ?vs)) = 128"
    by (simp add: be_hex_length)
  ultimately show "\<exists>r. cmd_read_registers_traced state command
               = Inr (map read_reg [0, 1, 2, 3, 4, 5, 6, 7, 8, 9, 10, 11, 12] @ [read_sp, read_lr, read_pc],
                      r, state)
            \<and> r = concat (map (\<lambda>v. to_hex (byteswap32 v)) ?vs)
            \<and> length r = 128"
    unfolding be by blast
next
  show "cmd_read_registers state command
        = map_sum id snd (cmd_read_registers_traced state command)"
    by (auto simp: cmd_read_registers_def split: sum.splits)
qed

lemma be_hex_samples:
  "to_hex (byteswap32 1) = ''01000000''"
  "to_hex (byteswap32 2) = ''02000000''"
  "to_hex (byteswap32 3) = ''03000000''"
  "to_hex (byteswap32 4) = ''04000000''"
  "to_hex (byteswap32 5) = ''05000000''"
  "to_hex (byteswap32 6) = ''06000000''"
  "to_hex (byteswap32 7) = ''07000000''"
  "to_hex (byteswap32 8) = ''08000000''"
  "to_hex (byteswap32 9) = ''09000000''"
  "to_hex (byteswap32 10) = ''0a000000''"
  "to_hex (byteswap32 11) = ''0b000000''"
  "to_hex (byteswap32 12) = ''0c000000''"
  "to_hex (byteswap32 13) = ''0d000000''"
  "to_hex (byteswap32 0x100) = ''00010000''"
  "to_hex (byteswap32 0x200) = ''00020000''"
  "to_hex (byteswap32 0x12345678) = ''78563412''"
  by (simp_all add: byteswap32_def hex_eval)

theorem read_registers_reply_witness:
  "current_thread (gdb sample_state) = - 1
   \<and> cmd_read_registers_traced sample_state (parse_command ''$g#67'' 5) = Inr ([], ''E00'', sample_state)
   \<and> current_thread (gdb sample_state_selected) \<noteq> - 1
   \<and> map_of (threads (kernel sample_state_selected)) (current_thread (gdb sample_state_selected))
       = Some sample_thread
   \<and> cmd_read_registers sample_state_selected (parse_command ''$g#67'' 5)
       = Inr (''0100000002000000030000000400000005000000060000000700000008000000''
              @ ''090000000a0000000b0000000c0000000d000000000100000002000078563412'',
              sample_state_selected)"
proof -
  let ?s = "sample_state_selected"
  let ?c = "parse_command ''$g#67'' 5"
  have c: "current_thread (gdb sample_state) = - 1" by (simp add: sample_state_def)
  have n: "current_thread (gdb ?s) \<noteq> - 1" by (simp add: sample_state_selected_def)
  have m: "map_of (threads (kernel ?s)) (current_thread (gdb ?s)) = Some sample_thread"
    by (simp add: sample_state_selected_def sample_state_def)
  from read_registers_reply [of sample_state ?c] c
  have e: "cmd_read_registers_traced sample_state ?c = Inr ([], ''E00'', sample_state)" by blast
  from read_registers_reply [of ?s ?c] n m
  have "cmd_read_registers ?s ?c
        = Inr (concat (map (\<lambda>v. to_hex (byteswap32 v))
                     (map (cpu_reg (cpu sample_thread)) [0, 1, 2, 3, 4, 5, 6, 7, 8, 9, 10, 11, 12]
                      @ [cpu_sp (cpu sample_thread), cpu_lr (cpu sample_thread), cpu_pc (cpu sample_thread)])), ?s)"
    by (auto simp del: map_append concat_append)
  also have "map (cpu_reg (cpu sample_thread)) [0, 1, 2, 3, 4, 5, 6, 7, 8, 9, 10, 11, 12]
                      @ [cpu_sp (cpu sample_thread), cpu_lr (cpu sample_thread), cpu_pc (cpu sample_thread)]
       = [1, 2, 3, 4, 5, 6, 7, 8, 9, 10, 11, 12, 13, 0x100, 0x200] @ [0x12345678]"
    by (simp add: sample_cpu_def sample_thread_def)
  finally have r: "cmd_read_registers ?s ?c
       = Inr (''0100000002000000030000000400000005000000060000000700000008000000''
              @ ''090000000a0000000b0000000c0000000d000000000100000002000078563412'', ?s)"
    by (simp add: be_hex_samples)
  from c e n m r show ?thesis by blast
qed

section \<open>Framing\<close>

lemma last_hash_Suc:
  "last_hash d (int (Suc n)) = (if d ! n = CHR ''#'' then int n else last_hash d (int n))"
  by (simp add: last_hash_def del: of_nat_Suc)

lemma last_hash_frame:
  assumes "CHR ''#'' \<notin> set ys" and "k \<le> length ys"
  shows "last_hash (xs @ CHR ''#'' # ys) (int (length xs + 1 + k)) = int (length xs)"
  using assms(2)
proof (induction k)
  case 0
  show ?case using last_hash_Suc [of "xs @ CHR ''#'' # ys" "length xs"] by simp
next
  case (Suc k)
  then have "ys ! k \<in> set ys" by simp
  with assms(1) have "ys ! k \<noteq> CHR ''#''" by metis
  moreover have "(xs @ CHR ''#'' # ys) ! (length xs + 1 + k) = ys ! k"
    by (simp add: nth_append)
  ultimately show ?case
    using Suc last_hash_Suc [of "xs @ CHR ''#'' # ys" "length xs + 1 + k"] by simp
qed

lemma hash_not_lower_hex: "\<forall>c \<in> set s. is_lower_hex c \<Longrightarrow> CHR ''#'' \<notin> set s"
  using is_lower_hex_cases(8) by blast

text \<open>
  Claim C3, amended. For every non-empty byte string \<open>b\<close> without \<^verbatim>\<open>#\<close> (with or
  without \<^verbatim>\<open>$\<close>), parsing \<^verbatim>\<open>$\<close> \<open>b\<close> \<^verbatim>\<open>#\<close> and the two hex digits of the checksum
  of \<open>b\<close> gives a valid frame with the body \<open>b\<close>, and framing \<open>b\<close> for output
  sends these very bytes.
\<close>

theorem framing_roundtrip:
  assumes "b \<noteq> []" and "CHR ''#'' \<notin> set b"
  shows "is_valid (parse_command (CHR ''$'' # b @ CHR ''#'' # hex2 (make_checksum b (int (length b))))
                     (int (length b) + 4))
    \<and> content_string (parse_command (CHR ''$'' # b @ CHR ''#'' # hex2 (make_checksum b (int (length b))))
                     (int (length b) + 4)) = b
    \<and> sent (server_reply g b (int (length b)))
        = sent g @ CHR ''$'' # b @ CHR ''#'' # hex2 (make_checksum b (int (length b)))"
proof -
  let ?cs = "make_checksum b (int (length b))"
  let ?wire = "CHR ''$'' # b @ CHR ''#'' # hex2 ?cs"
  have len: "int (length ?wire) = int (length b) + 4" by (simp add: hex2_length)
  have "last_hash ((CHR ''$'' # b) @ CHR ''#'' # hex2 ?cs) (int (length (CHR ''$'' # b) + 1 + 2))
        = int (length (CHR ''$'' # b))"
    by (rule last_hash_frame) (simp_all add: hash_not_lower_hex [OF hex2_lower] hex2_length)
  then have ei: "last_hash ?wire (int (length b) + 4) = int (length b) + 1"
    by (simp add: add.commute)
  have "nat (2 + int (length b)) = Suc (Suc (length b))" by simp
  then have cc: "take 2 (drop (nat (2 + int (length b))) ?wire) = hex2 ?cs"
    by (simp add: hex2_length)
  have body: "make_checksum (b @ CHR ''#'' # hex2 ?cs) (int (length b)) = ?cs"
    by (simp add: make_checksum_def)
  have ne: "Suc 0 \<le> length b" using assms(1) by (cases b) simp_all
  have valid: "is_valid (parse_command ?wire (int (length b) + 4))
     \<and> content_string (parse_command ?wire (int (length b) + 4)) = b"
    using ne by (simp add: parse_command_def Let_def ei cc body parse_hex_hex2 content_string_def)
  moreover have "sent (server_reply g b (int (length b))) = sent g @ ?wire"
    by (simp add: server_reply_def)
  ultimately show ?thesis by blast
qed


lemma checksum_samples:
  "make_checksum [] 0 = 0"
  "make_checksum ''OK'' 2 = 0x9a"
  by (simp_all add: make_checksum_def char_to_size_t_def)

lemma hex2_samples:
  "hex2 0 = ''00''"
  "hex2 0x9a = ''9a''"
  by (simp_all add: hex_eval)

theorem framing_roundtrip_witness:
  "''OK'' \<noteq> [] \<and> CHR ''#'' \<notin> set ''OK''
   \<and> is_valid (parse_command ''$OK#9a'' 6)
   \<and> content_string (parse_command ''$OK#9a'' 6) = ''OK''
   \<and> sent (server_reply (gdb sample_state) ''OK'' 2) = ''$OK#9a''"
  using framing_roundtrip [of "''OK''" "gdb sample_state"]
  by (simp add: checksum_samples hex2_samples sample_state_def)

text \<open>The empty body is refused: \<^verbatim>\<open>parse_command\<close> wants \<^verbatim>\<open>end_index > begin_index\<close>,
  and in \<^verbatim>\<open>$#00\<close> both are 1.\<close>

theorem framing_roundtrip_empty_body_counterexample:
  "CHR ''$'' \<notin> set [] \<and> CHR ''#'' \<notin> set []
   \<and> CHR ''$'' # [] @ CHR ''#'' # hex2 (make_checksum [] (int (length ([] :: string)))) = ''$#00''
   \<and> \<not> is_valid (parse_command ''$#00'' (int (length ''$#00'')))"
  by (simp add: checksum_samples hex2_samples parse_command_def Let_def last_hash_def)

section \<open>The session step\<close>

lemma sent_set_cpu [simp]: "gdb (set_cpu state tid c) = gdb state"
  by (simp add: set_cpu_def)

lemma sent_set_thread [simp]: "gdb (set_thread state tid t) = gdb state"
  by (simp add: set_thread_def)

lemma resume_inferior_gdb: "resume_inferior env state step = Inr state' \<Longrightarrow> gdb state' = gdb state"
  by (auto simp: resume_inferior_def Let_def split: if_splits option.splits)

lemma vcont_action_sent:
  "vcont_action env state step = Inr (r, state') \<Longrightarrow> sent (gdb state') = sent (gdb state)"
  by (auto simp: vcont_action_def split: sum.splits if_splits option.splits dest!: resume_inferior_gdb)

lemma cmd_continue_loop_sent:
  "cmd_continue_loop env state content index = Inr (r, state') \<Longrightarrow> sent (gdb state') = sent (gdb state)"
proof (induction env state content index rule: cmd_continue_loop.induct)
  case (1 env state content index)
  show ?case
    using "1.prems" "1.IH"
    by (subst (asm) cmd_continue_loop.simps)
       (auto simp: Let_def split: sum.splits if_splits list.splits dest: vcont_action_sent)
qed


lemma cmd_continue_sent:
  "cmd_continue env state command = Inr (r, state') \<Longrightarrow> sent (gdb state') = sent (gdb state)"
  unfolding cmd_continue_def by (rule cmd_continue_loop_sent)

lemma simple_handlers_sent:
  "cmd_unimplemented state command = Inr (r, state') \<Longrightarrow> sent (gdb state') = sent (gdb state)"
  "cmd_deprecated state command = Inr (r, state') \<Longrightarrow> sent (gdb state') = sent (gdb state)"
  "cmd_reason state command = Inr (r, state') \<Longrightarrow> sent (gdb state') = sent (gdb state)"
  "cmd_supported state command = Inr (r, state') \<Longrightarrow> sent (gdb state') = sent (gdb state)"
  "cmd_attached state command = Inr (r, state') \<Longrightarrow> sent (gdb state') = sent (gdb state)"
  "cmd_thread_status state command = Inr (r, state') \<Longrightarrow> sent (gdb state') = sent (gdb state)"
  "cmd_get_current_thread state command = Inr (r, state') \<Longrightarrow> sent (gdb state') = sent (gdb state)"
  "cmd_continue_supported state command = Inr (r, state') \<Longrightarrow> sent (gdb state') = sent (gdb state)"
  "cmd_kill state command = Inr (r, state') \<Longrightarrow> sent (gdb state') = sent (gdb state)"
  "cmd_reply_empty state command = Inr (r, state') \<Longrightarrow> sent (gdb state') = sent (gdb state)"
  "cmd_die state command = Inr (r, state') \<Longrightarrow> sent (gdb state') = sent (gdb state)"
  by (auto simp: cmd_unimplemented_def cmd_deprecated_def cmd_reason_def cmd_supported_def
      cmd_attached_def cmd_thread_status_def cmd_get_current_thread_def cmd_continue_supported_def
      cmd_kill_def cmd_reply_empty_def cmd_die_def)

lemma thread_handlers_sent:
  "cmd_set_current_thread state command = Inr (r, state') \<Longrightarrow> sent (gdb state') = sent (gdb state)"
  "cmd_thread_alive state command = Inr (r, state') \<Longrightarrow> sent (gdb state') = sent (gdb state)"
  "cmd_get_first_thread state command = Inr (r, state') \<Longrightarrow> sent (gdb state') = sent (gdb state)"
  "cmd_get_next_thread state command = Inr (r, state') \<Longrightarrow> sent (gdb state') = sent (gdb state)"
  by (auto simp: cmd_set_current_thread_def cmd_thread_alive_def cmd_get_first_thread_def
      cmd_get_next_thread_def Let_def split: if_splits sum.splits list.splits)

lemma register_handlers_sent:
  "cmd_read_register state command = Inr (r, state') \<Longrightarrow> sent (gdb state') = sent (gdb state)"
  "cmd_write_register state command = Inr (r, state') \<Longrightarrow> sent (gdb state') = sent (gdb state)"
  "cmd_read_registers state command = Inr (r, state') \<Longrightarrow> sent (gdb state') = sent (gdb state)"
  "cmd_write_registers state command = Inr (r, state') \<Longrightarrow> sent (gdb state') = sent (gdb state)"
  by (auto simp: cmd_read_register_def cmd_write_register_def cmd_read_registers_def
      cmd_read_registers_traced_def cmd_write_registers_def Let_def
      split: if_splits sum.splits option.splits prod.splits)

lemma memory_handlers_sent:
  "cmd_read_memory state command = Inr (r, state') \<Longrightarrow> sent (gdb state') = sent (gdb state)"
  "cmd_write_memory state command = Inr (r, state') \<Longrightarrow> sent (gdb state') = sent (gdb state)"
  by (auto simp: cmd_read_memory_def cmd_write_memory_def Let_def
      split: if_splits sum.splits option.splits bool.splits)

lemma breakpoint_handlers_sent:
  "cmd_add_breakpoint state command = Inr (r, state') \<Longrightarrow> sent (gdb state') = sent (gdb state)"
  "cmd_remove_breakpoint state command = Inr (r, state') \<Longrightarrow> sent (gdb state') = sent (gdb state)"
  by (auto simp: cmd_add_breakpoint_def cmd_remove_breakpoint_def Let_def
      split: if_splits sum.splits)

lemmas handlers_sent = simple_handlers_sent thread_handlers_sent register_handlers_sent
  memory_handlers_sent breakpoint_handlers_sent cmd_continue_sent

text \<open>No handler of the table writes to the socket.\<close>

lemma packet_functions_sent:
  assumes "(name, f) \<in> set (packet_functions env)" and "f state command = Inr (r, state')"
  shows "sent (gdb state') = sent (gdb state)"
  using assms unfolding packet_functions_def
  by (auto dest: handlers_sent)



lemma find_hash_SomeD:
  assumes "find_hash buf pos = Some h"
  shows "pos < h" "h + 2 < length buf" "buf ! h = CHR ''#''"
proof -
  let ?seg = "drop (pos + 1) (take (length buf - 2) buf)"
  let ?k = "length (takeWhile (\<lambda>c. c \<noteq> CHR ''#'') ?seg)"
  from assms have k: "?k < length ?seg" and h: "h = pos + 1 + ?k"
    by (auto simp: find_hash_def Let_def split: if_splits)
  from h show "pos < h" by simp
  from k h show hl: "h + 2 < length buf" by simp
  have "?seg ! ?k = CHR ''#''"
    using nth_length_takeWhile [OF k] by simp
  moreover have "?seg ! ?k = buf ! h"
    using k h hl by (simp add: add.commute)
  ultimately show "buf ! h = CHR ''#''" by simp
qed

lemma server_reply_text_sent:
  "sent (server_reply_text g text)
   = sent g @ CHR ''$'' # text @ CHR ''#'' # hex2 (make_checksum text (int (length text)))"
  by (simp add: server_reply_text_def server_reply_def)

lemma server_reply_text_die [simp]: "server_die (server_reply_text g text) = server_die g"
  by (simp add: server_reply_text_def server_reply_def)

lemma hex2_checksum_empty: "hex2 (make_checksum [] 0) = ''00''"
  by (simp add: make_checksum_def hex_eval)

text \<open>A complete packet at \<open>pos\<close> is handled, and the loop goes on behind its checksum.\<close>

lemma server_loop_packet:
  assumes "pos < length buf" and "buf ! pos = CHR ''$''" and "find_hash buf pos = Some h"
  shows "server_loop env buf state pos
         = (case handle_packet env state buf pos h of
              Inl e \<Rightarrow> Inl e | Inr state' \<Rightarrow> server_loop env buf state' (h + 3))"
proof -
  note h = find_hash_SomeD [OF assms(3)]
  have e: "pos + (h + 3 - pos) = h + 3" using h(1) by simp
  show ?thesis
    using assms h by (subst server_loop.simps) (simp add: Let_def e cong: sum.case_cong)
qed

lemma server_loop_end: "length buf \<le> pos \<Longrightarrow> server_loop env buf state pos = Inr (state, pos)"
  by (subst server_loop.simps) simp

lemma handle_packet_invalid:
  assumes "\<not> is_valid (parse_command (drop pos buf) (int (h + 3 - pos)))"
  shows "handle_packet env state buf pos h
         = Inr (state\<lparr>gdb := (gdb state)\<lparr>sent := sent (gdb state) @ ''+-''\<rparr>\<rparr>)"
  using assms by (simp add: handle_packet_def Let_def server_ack_def)

lemma handle_packet_unknown:
  assumes "is_valid (parse_command (drop pos buf) (int (h + 3 - pos)))"
    and "find (\<lambda>(name, f). command_begins_with (parse_command (drop pos buf) (int (h + 3 - pos))) name)
           (packet_functions env) = None"
  shows "handle_packet env state buf pos h
         = Inr (state\<lparr>gdb := (gdb state)\<lparr>last_reply := [], sent := sent (gdb state) @ ''+$#00''\<rparr>\<rparr>)"
  using assms
  by (simp add: handle_packet_def Let_def server_ack_def server_reply_text_def server_reply_def
      c_str_def hex2_checksum_empty)

lemma handle_packet_known:
  assumes "is_valid (parse_command (drop pos buf) (int (h + 3 - pos)))"
    and "find (\<lambda>(name, f). command_begins_with (parse_command (drop pos buf) (int (h + 3 - pos))) name)
           (packet_functions env) = Some (name, f)"
    and "f (state\<lparr>gdb := server_ack (gdb state) CHR ''+''\<rparr>)
           (parse_command (drop pos buf) (int (h + 3 - pos))) = Inr (r, state2)"
  shows "handle_packet env state buf pos h
         = Inr (if server_die (gdb state2) then state2\<lparr>gdb := (gdb state2)\<lparr>last_reply := r\<rparr>\<rparr>
                else state2\<lparr>gdb := (gdb state2)\<lparr>last_reply := r,
                        sent := sent (gdb state2) @ CHR ''$'' # c_str r @ CHR ''#'' #
                                  hex2 (make_checksum (c_str r) (int (length (c_str r))))\<rparr>\<rparr>)"
  using assms
  by (simp add: handle_packet_def Let_def server_reply_text_def server_reply_def)

text \<open>
  Claim C2, amended. For every complete packet in the receive buffer (a \<^verbatim>\<open>$\<close> at \<open>pos\<close>,
  the next \<^verbatim>\<open>#\<close> at \<open>h\<close> with two bytes behind it) the loop of \<^verbatim>\<open>server_next\<close> sends
  \<^verbatim>\<open>+\<close> first, before the packet is parsed and whatever its checksum. Then: a packet with a
  bad checksum gets \<^verbatim>\<open>-\<close>; an accepted packet that no entry of the table matches gets the
  empty frame; an accepted packet whose handler returns with \<^verbatim>\<open>server_die\<close> unset gets the
  reply of the handler in a \<^verbatim>\<open>$\<close> frame; and an accepted packet whose handler returns with
  \<^verbatim>\<open>server_die\<close> set gets nothing after the \<^verbatim>\<open>+\<close>. A handler that does not return
  leaves the packet without reply.
\<close>

theorem ack_before_reply:
  assumes "pos < length buf" and "buf ! pos = CHR ''$''" and "find_hash buf pos = Some h"
  shows "let command = parse_command (drop pos buf) (int (h + 3 - pos));
             state1 = state\<lparr>gdb := server_ack (gdb state) CHR ''+''\<rparr>;
             handler = find (\<lambda>(name, f). command_begins_with command name) (packet_functions env)
         in server_loop env buf state pos
              = (case handle_packet env state buf pos h of
                   Inl e \<Rightarrow> Inl e | Inr state' \<Rightarrow> server_loop env buf state' (h + 3))
          \<and> sent (gdb state1) = sent (gdb state) @ ''+''
          \<and> (\<not> is_valid command \<longrightarrow>
                (\<exists>state'. handle_packet env state buf pos h = Inr state'
                   \<and> sent (gdb state') = sent (gdb state) @ ''+-''))
          \<and> (is_valid command \<and> handler = None \<longrightarrow>
                (\<exists>state'. handle_packet env state buf pos h = Inr state'
                   \<and> sent (gdb state') = sent (gdb state) @ ''+$#00''))
          \<and> (\<forall>name f. is_valid command \<and> handler = Some (name, f) \<longrightarrow>
                (\<forall>e. f state1 command = Inl e \<longrightarrow> handle_packet env state buf pos h = Inl e)
              \<and> (\<forall>r state2. f state1 command = Inr (r, state2) \<longrightarrow>
                   (\<exists>state'. handle_packet env state buf pos h = Inr state'
                      \<and> sent (gdb state')
                          = sent (gdb state) @ CHR ''+'' #
                              (if server_die (gdb state2) then []
                               else CHR ''$'' # c_str r @ CHR ''#'' #
                                      hex2 (make_checksum (c_str r) (int (length (c_str r))))))))"
proof -
  let ?command = "parse_command (drop pos buf) (int (h + 3 - pos))"
  let ?state1 = "state\<lparr>gdb := server_ack (gdb state) CHR ''+''\<rparr>"
  let ?handler = "find (\<lambda>(name, f). command_begins_with ?command name) (packet_functions env)"
  note loop = server_loop_packet [OF assms, of env state]
  have ack: "sent (gdb ?state1) = sent (gdb state) @ ''+''"
    by (simp add: server_ack_def)
  have bad: "\<exists>state'. handle_packet env state buf pos h = Inr state'
                   \<and> sent (gdb state') = sent (gdb state) @ ''+-''" if "\<not> is_valid ?command"
    using handle_packet_invalid [OF that] by simp
  have unknown: "\<exists>state'. handle_packet env state buf pos h = Inr state'
                   \<and> sent (gdb state') = sent (gdb state) @ ''+$#00''"
    if "is_valid ?command" "?handler = None"
    using handle_packet_unknown [OF that] by simp
  have fault: "handle_packet env state buf pos h = Inl e"
    if "is_valid ?command" "?handler = Some (name, f)" "f ?state1 ?command = Inl e" for name f e
    using that by (simp add: handle_packet_def Let_def)
  have known: "\<exists>state'. handle_packet env state buf pos h = Inr state'
                      \<and> sent (gdb state')
                          = sent (gdb state) @ CHR ''+'' #
                              (if server_die (gdb state2) then []
                               else CHR ''$'' # c_str r @ CHR ''#'' #
                                      hex2 (make_checksum (c_str r) (int (length (c_str r)))))"
    if "is_valid ?command" "?handler = Some (name, f)" "f ?state1 ?command = Inr (r, state2)"
    for name f r state2
  proof -
    from that(2) have "(name, f) \<in> set (packet_functions env)"
      by (auto simp: find_Some_iff in_set_conv_nth)
    from packet_functions_sent [OF this that(3)]
    have s2: "sent (gdb state2) = sent (gdb state) @ ''+''" by (simp add: server_ack_def)
    show ?thesis
      using handle_packet_known [OF that] s2 by simp
  qed
  show ?thesis
    unfolding Let_def using loop ack bad unknown fault known by blast
qed

lemma last_hash_samples:
  "last_hash ''$?#3f'' 5 = 2"
  "last_hash ''$k#6b'' 5 = 2"
  "last_hash ''$D#44'' 5 = 2"
  "last_hash ''$g#00'' 5 = 2"
  by (simp_all add: last_hash_def upt_rec)

lemma parse_hex_samples:
  "parse_hex ''3f'' = 0x3f"
  "parse_hex ''6b'' = 0x6b"
  "parse_hex ''44'' = 0x44"
  "parse_hex ''00'' = 0"
  by (simp_all add: parse_hex_def strtoul16_def c_str_def hex_val_def is_space_def ULONG_MAX_def Let_def)

lemma make_checksum_samples:
  "make_checksum ''?#3f'' 1 = 0x3f"
  "make_checksum ''k#6b'' 1 = 0x6b"
  "make_checksum ''D#44'' 1 = 0x44"
  "make_checksum ''g#00'' 1 = 0x67"
  "make_checksum ''S05'' 3 = 0xb8"
  by (simp_all add: make_checksum_def char_to_size_t_def)

lemma parse_command_samples:
  "parse_command ''$?#3f'' 5 = \<lparr>data = ''$?#3f'', data_length = 5, begin_index = 1, end_index = 2,
     content_length = 1, checksum = 0x3f, is_valid = True\<rparr>"
  "parse_command ''$k#6b'' 5 = \<lparr>data = ''$k#6b'', data_length = 5, begin_index = 1, end_index = 2,
     content_length = 1, checksum = 0x6b, is_valid = True\<rparr>"
  "parse_command ''$D#44'' 5 = \<lparr>data = ''$D#44'', data_length = 5, begin_index = 1, end_index = 2,
     content_length = 1, checksum = 0x44, is_valid = True\<rparr>"
  "parse_command ''$g#00'' 5 = \<lparr>data = ''$g#00'', data_length = 5, begin_index = 1, end_index = 2,
     content_length = 1, checksum = 0, is_valid = False\<rparr>"
  by (simp_all add: parse_command_def Let_def last_hash_samples parse_hex_samples make_checksum_samples)

lemma find_hash_samples:
  "find_hash ''$?#3f'' 0 = Some 2"
  "find_hash ''$k#6b'' 0 = Some 2"
  "find_hash ''$D#44'' 0 = Some 2"
  "find_hash ''$g#00'' 0 = Some 2"
  "find_hash ''$k#6b$D#44'' 0 = Some 2"
  "find_hash ''$k#6b$D#44'' 5 = Some 7"
  by (simp_all add: find_hash_def)

lemma dispatch_samples:
  "find (\<lambda>(name, f). command_begins_with \<lparr>data = ''$?#3f'', data_length = 5, begin_index = 1, end_index = 2,
     content_length = 1, checksum = 0x3f, is_valid = True\<rparr> name) (packet_functions env) = Some (''?'', cmd_reason)"
  "find (\<lambda>(name, f). command_begins_with \<lparr>data = ''$k#6b'', data_length = 5, begin_index = 1, end_index = 2,
     content_length = 1, checksum = 0x6b, is_valid = True\<rparr> name) (packet_functions env) = Some (''k'', cmd_die)"
  "find (\<lambda>(name, f). command_begins_with \<lparr>data = ''$D#44'', data_length = 5, begin_index = 1, end_index = 2,
     content_length = 1, checksum = 0x44, is_valid = True\<rparr> name) (packet_functions env) = None"
  by (simp_all add: packet_functions_def command_begins_with_def)

lemma hex2_samples2: "hex2 0xb8 = ''b8''"
  by (simp add: hex_eval)

lemma sample_state_gdb:
  "sent (gdb sample_state) = []" "server_die (gdb sample_state) = False"
  "last_reply (gdb sample_state) = []"
  by (simp_all add: sample_state_def)

theorem ack_before_reply_witness:
  "(0::nat) < length ''$?#3f'' \<and> ''$?#3f'' ! 0 = CHR ''$'' \<and> find_hash ''$?#3f'' 0 = Some 2
   \<and> is_valid (parse_command ''$?#3f'' 5)
   \<and> find (\<lambda>(name, f). command_begins_with (parse_command ''$?#3f'' 5) name) (packet_functions sample_env)
       = Some (''?'', cmd_reason)
   \<and> cmd_reason (sample_state\<lparr>gdb := server_ack (gdb sample_state) CHR ''+''\<rparr>) (parse_command ''$?#3f'' 5)
       = Inr (''S05'', sample_state\<lparr>gdb := server_ack (gdb sample_state) CHR ''+''\<rparr>)
   \<and> (\<exists>state'. handle_packet sample_env sample_state ''$?#3f'' 0 2 = Inr state'
         \<and> sent (gdb state') = ''+$S05#b8'')
   \<and> (0::nat) < length ''$g#00'' \<and> ''$g#00'' ! 0 = CHR ''$'' \<and> find_hash ''$g#00'' 0 = Some 2
   \<and> \<not> is_valid (parse_command ''$g#00'' 5)
   \<and> (\<exists>state'. handle_packet sample_env sample_state ''$g#00'' 0 2 = Inr state'
         \<and> sent (gdb state') = ''+-'')
   \<and> (0::nat) < length ''$D#44'' \<and> ''$D#44'' ! 0 = CHR ''$'' \<and> find_hash ''$D#44'' 0 = Some 2
   \<and> is_valid (parse_command ''$D#44'' 5)
   \<and> find (\<lambda>(name, f). command_begins_with (parse_command ''$D#44'' 5) name) (packet_functions sample_env)
       = None
   \<and> (\<exists>state'. handle_packet sample_env sample_state ''$D#44'' 0 2 = Inr state'
         \<and> sent (gdb state') = ''+$#00'')"
proof -
  have known: "\<exists>state'. handle_packet sample_env sample_state ''$?#3f'' 0 2 = Inr state'
         \<and> sent (gdb state') = ''+$S05#b8''"
    using ack_before_reply [of 0 "''$?#3f''" 2 sample_state sample_env]
    by (simp add: Let_def find_hash_samples parse_command_samples dispatch_samples cmd_reason_def
        server_ack_def sample_state_gdb c_str_def make_checksum_samples hex2_samples2)
  have bad: "\<exists>state'. handle_packet sample_env sample_state ''$g#00'' 0 2 = Inr state'
         \<and> sent (gdb state') = ''+-''"
    using ack_before_reply [of 0 "''$g#00''" 2 sample_state sample_env]
    by (simp add: Let_def find_hash_samples parse_command_samples sample_state_gdb)
  have unknown: "\<exists>state'. handle_packet sample_env sample_state ''$D#44'' 0 2 = Inr state'
         \<and> sent (gdb state') = ''+$#00''"
    using ack_before_reply [of 0 "''$D#44''" 2 sample_state sample_env]
    by (simp add: Let_def find_hash_samples parse_command_samples dispatch_samples sample_state_gdb)
  show ?thesis
    using known bad unknown
    by (simp add: find_hash_samples parse_command_samples dispatch_samples cmd_reason_def)
qed

lemma pipelined_samples:
  "last_hash ''$k#6b$D#44'' 5 = 2"
  "make_checksum ''k#6b$D#44'' 1 = 0x6b"
  by (simp_all add: last_hash_def upt_rec make_checksum_def char_to_size_t_def)

lemma parse_command_pipelined:
  "parse_command ''$k#6b$D#44'' 5 = \<lparr>data = ''$k#6b$D#44'', data_length = 5, begin_index = 1,
     end_index = 2, content_length = 1, checksum = 0x6b, is_valid = True\<rparr>"
  by (simp add: parse_command_def Let_def pipelined_samples parse_hex_samples)

lemma dispatch_pipelined:
  "find (\<lambda>(name, f). command_begins_with \<lparr>data = ''$k#6b$D#44'', data_length = 5, begin_index = 1,
     end_index = 2, content_length = 1, checksum = 0x6b, is_valid = True\<rparr> name) (packet_functions env)
   = Some (''k'', cmd_die)"
  by (simp add: packet_functions_def command_begins_with_def)

text \<open>The packet \<^verbatim>\<open>k\<close> alone: acknowledged, and then nothing.\<close>

lemma handle_packet_k:
  "handle_packet sample_env sample_state ''$k#6b'' 0 2
   = Inr (sample_state\<lparr>gdb := (gdb sample_state)\<lparr>server_die := True, last_reply := [], sent := ''+''\<rparr>\<rparr>)"
  by (subst handle_packet_known [where name = "''k''" and f = cmd_die and r = "[]"
        and ?state2.0 = "sample_state\<lparr>gdb := (gdb sample_state)\<lparr>server_die := True, sent := ''+''\<rparr>\<rparr>"])
     (simp_all add: parse_command_samples dispatch_samples cmd_die_def server_ack_def sample_state_gdb)

text \<open>The accepted packet \<^verbatim>\<open>k\<close> is acknowledged and gets no reply frame: its handler
  sets \<^verbatim>\<open>server_die\<close>, and \<^verbatim>\<open>server_next\<close> skips the reply.\<close>

theorem kill_packet_gets_no_reply_counterexample:
  "find_hash ''$k#6b'' 0 = Some 2 \<and> is_valid (parse_command ''$k#6b'' 5)
   \<and> (\<exists>state'. server_next sample_env [] sample_state ''$k#6b'' = Inr (5, state', [])
         \<and> sent (gdb state') = ''+'')"
proof -
  have "server_loop sample_env ''$k#6b'' sample_state 0
        = Inr (sample_state\<lparr>gdb := (gdb sample_state)\<lparr>server_die := True, last_reply := [], sent := ''+''\<rparr>\<rparr>, 5)"
    by (subst server_loop_packet [where h = 2])
       (simp_all add: find_hash_samples handle_packet_k server_loop_end)
  then show ?thesis
    by (simp add: server_next_def sample_state_gdb find_hash_samples parse_command_samples)
qed

lemma handle_packet_k_pipelined:
  "handle_packet sample_env sample_state ''$k#6b$D#44'' 0 2
   = Inr (sample_state\<lparr>gdb := (gdb sample_state)\<lparr>server_die := True, last_reply := [], sent := ''+''\<rparr>\<rparr>)"
  by (subst handle_packet_known [where name = "''k''" and f = cmd_die and r = "[]"
        and ?state2.0 = "sample_state\<lparr>gdb := (gdb sample_state)\<lparr>server_die := True, sent := ''+''\<rparr>\<rparr>"])
     (simp_all add: parse_command_pipelined dispatch_pipelined cmd_die_def server_ack_def sample_state_gdb)

lemma handle_packet_D_after_die:
  "handle_packet sample_env
     (sample_state\<lparr>gdb := (gdb sample_state)\<lparr>server_die := True, last_reply := [], sent := ''+''\<rparr>\<rparr>)
     ''$k#6b$D#44'' 5 7
   = Inr (sample_state\<lparr>gdb := (gdb sample_state)\<lparr>server_die := True, last_reply := [], sent := ''++$#00''\<rparr>\<rparr>)"
  by (subst handle_packet_unknown)
     (simp_all add: parse_command_samples dispatch_samples)

text \<open>
  Claim C5 asks that nothing is sent once \<^verbatim>\<open>server_die\<close> is set, also for packets that
  are in the buffer already. The loop of \<^verbatim>\<open>server_next\<close> does not look at the flag: when
  \<^verbatim>\<open>$k#6b$D#44\<close> arrives in one read, the handler of \<^verbatim>\<open>k\<close> sets the flag after the
  first \<^verbatim>\<open>+\<close>, and the second packet is still acknowledged and answered with the empty
  frame, so \<^verbatim>\<open>+$#00\<close> is sent while the flag is set.
\<close>

theorem output_after_server_die:
  "handle_packet sample_env sample_state ''$k#6b$D#44'' 0 2
     = Inr (sample_state\<lparr>gdb := (gdb sample_state)\<lparr>server_die := True, last_reply := [], sent := ''+''\<rparr>\<rparr>)
   \<and> server_next sample_env [] sample_state ''$k#6b$D#44''
     = Inr (10, sample_state\<lparr>gdb := (gdb sample_state)\<lparr>server_die := True, last_reply := [],
                                                     sent := ''++$#00''\<rparr>\<rparr>, [])"
proof -
  have "server_loop sample_env ''$k#6b$D#44'' sample_state 0
        = Inr (sample_state\<lparr>gdb := (gdb sample_state)\<lparr>server_die := True, last_reply := [],
                                                     sent := ''++$#00''\<rparr>\<rparr>, 10)"
    apply (subst server_loop_packet [where h = 2])
       apply (simp_all add: find_hash_samples handle_packet_k_pipelined)
    apply (subst server_loop_packet [where h = 7])
       apply (simp_all add: find_hash_samples handle_packet_D_after_die server_loop_end)
    done
  then show ?thesis
    by (simp add: server_next_def sample_state_gdb handle_packet_k_pipelined)
qed

section \<open>Memory reads\<close>

lemma find_from_first:
  assumes "ch \<notin> set xs"
  shows "find_from (xs @ ch # ys) ch 0 = length xs"
proof -
  have "takeWhile (\<lambda>c. c \<noteq> ch) (xs @ ch # ys) = xs"
    using assms by (induction xs) auto
  then show ?thesis by (simp add: find_from_def Let_def)
qed

lemma size_sub_small:
  assumes "b \<le> a" and "a < 2 ^ 64"
  shows "size_sub a b = a - b"
proof -
  from assms have b: "b mod 2 ^ 64 = b" by simp
  from assms have "a + 2 ^ 64 - b = (a - b) + 2 ^ 64" by simp
  moreover from assms have "(a - b) mod 2 ^ 64 = a - b" by simp
  ultimately show ?thesis unfolding size_sub_def b by (simp only: mod_add_self2)
qed

lemma size_add_small: "a + b < 2 ^ 64 \<Longrightarrow> size_add a b = a + b"
  by (simp add: size_add_def)

lemma read_memory_parse:
  assumes c: "content_string command = CHR ''m'' # h1 @ CHR '','' # h2"
    and nc: "CHR '','' \<notin> set h1"
    and len: "length (content_string command) < npos"
  shows "cmd_read_memory state command =
     (let address = parse_hex h1; len = parse_hex h2
      in if \<not> is_valid_guest_addr_range (mem state) address (address + len)
         then Inr (''EAA'', state)
         else
           (case check_memory_region address len (mem state) of
              None \<Rightarrow> Inl NeverReturns
            | Some False \<Rightarrow> Inr (''EAA'', state)
            | Some True \<Rightarrow>
                (case read_memory_loop (mem state) address 0 (unat len) [] of
                   Inl e \<Rightarrow> Inl e
                 | Inr str \<Rightarrow> Inr (str, state))))"
proof -
  have "CHR '','' \<notin> set (CHR ''m'' # h1)" using nc by simp
  from find_from_first [OF this, of h2]
  have pos: "find_from (content_string command) CHR '','' 0 = Suc (length h1)"
    by (simp add: c)
  have l: "Suc (Suc (length h1)) < 2 ^ 64" using len by (simp add: c npos_def)
  then have s1: "size_sub (Suc (length h1)) 1 = length h1"
    by (subst size_sub_small) simp_all
  from l have s2: "size_add (Suc (length h1)) 1 = Suc (Suc (length h1))"
    by (subst size_add_small) simp_all
  have f: "substr (content_string command) 1 (length h1) = Inr h1"
    by (simp add: substr_def c)
  have "length h2 \<le> npos" using len by (simp add: c)
  then have g: "substr (content_string command) (Suc (Suc (length h1))) npos = Inr h2"
    by (simp add: substr_def c)
  show ?thesis
    unfolding cmd_read_memory_def Let_def pos s1 s2 f g by simp
qed

lemma read_memory_loop_ok:
  assumes "\<forall>k < i + n. address + of_nat k \<noteq> 0"
  shows "read_memory_loop m address (of_nat i) n str
         = Inr (str @ concat (map (\<lambda>k. hex2 (memory m (address + of_nat k))) [i ..< i + n]))"
  using assms
proof (induction n arbitrary: i str)
  case 0
  show ?case by simp
next
  case (Suc n)
  from Suc.prems have nz: "address + of_nat i \<noteq> 0" by simp
  from Suc.prems have "\<forall>k < Suc i + n. address + of_nat k \<noteq> 0" by simp
  then have ih: "read_memory_loop m address (of_nat (Suc i)) n (str @ hex2 (memory m (address + of_nat i)))
       = Inr ((str @ hex2 (memory m (address + of_nat i)))
              @ concat (map (\<lambda>k. hex2 (memory m (address + of_nat k))) [Suc i ..< Suc i + n]))"
    by (rule Suc.IH)
  have w: "(of_nat i :: 32 word) + 1 = of_nat (Suc i)" by simp
  have u: "[i ..< i + Suc n] = i # [Suc i ..< Suc i + n]" by (simp add: upt_conv_Cons)
  have "read_memory_loop m address (of_nat i) (Suc n) str
        = read_memory_loop m address (of_nat (Suc i)) n (str @ hex2 (memory m (address + of_nat i)))"
    using nz by (simp only: read_memory_loop.simps w if_False)
  also note ih
  finally show ?case by (simp only: u list.map concat.simps append_assoc)
qed

lemma no_null_in_range:
  assumes "a \<noteq> 0" and "unat a + unat len \<le> 2 ^ 32" and "k < unat len"
  shows "a + of_nat k \<noteq> (0 :: 32 word)"
proof -
  have k: "unat (of_nat k :: 32 word) = k"
    using assms(2,3) by (simp add: unat_of_nat)
  have "unat (a + of_nat k) = unat a + k"
    using assms(2,3) k by (simp add: unat_word_ariths)
  moreover have "0 < unat a" using assms(1) by (simp add: unat_gt_0)
  ultimately have "unat (a + of_nat k) \<noteq> 0" by simp
  then show ?thesis by (metis unat_0)
qed

lemma check_region_loop_valid:
  assumes ps: "page_size m \<noteq> 0" and nowrap: "unat e + unat (page_size m) \<le> 2 ^ 32"
    and valid: "\<forall>x. a \<le> x \<and> x < e \<longrightarrow> is_valid_addr m x" and "a \<le> it"
  shows "check_region_loop m e it = Some True"
  using \<open>a \<le> it\<close>
proof (induction "unat e - unat it" arbitrary: it rule: less_induct)
  case less
  show ?case
  proof (cases "it < e")
    case False
    then show ?thesis by (subst check_region_loop.simps) simp
  next
    case True
    then have lt: "unat it < unat e" by (simp add: word_less_nat_alt)
    have p: "0 < unat (page_size m)" using ps by (simp add: unat_gt_0)
    have sum: "unat (it + page_size m) = unat it + unat (page_size m)"
      using lt nowrap by (simp add: unat_word_ariths)
    then have "a \<le> it + page_size m"
      using less.prems by (simp add: word_le_nat_alt)
    moreover have "unat e - unat (it + page_size m) < unat e - unat it"
      using sum lt p by simp
    ultimately have "check_region_loop m e (it + page_size m) = Some True"
      by (rule less.hyps [rotated])
    moreover have "is_valid_addr m it" using valid less.prems True by simp
    ultimately show ?thesis using True by (subst check_region_loop.simps) simp
  qed
qed

lemma page_of_range:
  fixes A E p q :: nat
  assumes p: "0 < p" and AE: "A < E" and lo: "A div p \<le> q" and hi: "q \<le> (E - 1) div p"
  shows "\<exists>X. A \<le> X \<and> X < E \<and> X div p = q"
proof (cases "q = A div p")
  case True
  with AE show ?thesis by blast
next
  case False
  with lo have "A div p < q" by simp
  then have "Suc (A div p) \<le> q" by simp
  then have "Suc (A div p) * p \<le> q * p" by (rule mult_le_mono1)
  moreover have "A < Suc (A div p) * p"
    using p by (simp add: dividend_less_div_times add.commute)
  ultimately have a: "A \<le> q * p" by simp
  have "q * p \<le> ((E - 1) div p) * p" using hi by (rule mult_le_mono1)
  also have "\<dots> \<le> E - 1" by (simp add: div_times_less_eq_dividend)
  finally have b: "q * p < E" using AE by simp
  have "(q * p) div p = q" using p by simp
  with a b show ?thesis by blast
qed

text \<open>The range check of the memory subsystem in terms of addresses: the range is valid
  iff every address in it lies in a valid page.\<close>

lemma range_valid_iff:
  assumes ps: "page_size m \<noteq> 0"
  shows "is_valid_guest_addr_range m a e \<longleftrightarrow> (\<forall>x. a \<le> x \<and> x < e \<longrightarrow> is_valid_addr m x)"
proof (cases "a < e")
  case False
  then have "\<not> (a \<le> x \<and> x < e)" for x by auto
  then have "\<forall>x. a \<le> x \<and> x < e \<longrightarrow> is_valid_addr m x" by blast
  with False show ?thesis
    by (simp add: is_valid_guest_addr_range_def pages_touched_def)
next
  case True
  let ?p = "unat (page_size m)"
  have p: "0 < ?p" using ps by (simp add: unat_gt_0)
  from True have AE: "unat a < unat e" by (simp add: word_less_nat_alt)
  show ?thesis
  proof
    assume v: "is_valid_guest_addr_range m a e"
    show "\<forall>x. a \<le> x \<and> x < e \<longrightarrow> is_valid_addr m x"
    proof (intro allI impI)
      fix x assume "a \<le> x \<and> x < e"
      then have "unat a \<le> unat x" "unat x < unat e"
        by (simp_all add: word_le_nat_alt word_less_nat_alt)
      then have x: "unat a \<le> unat x" "unat x \<le> unat e - 1" by arith+
      then have "unat a div ?p \<le> unat x div ?p" "unat x div ?p \<le> (unat e - 1) div ?p"
        by (simp_all add: div_le_mono)
      then have "unat x div ?p \<in> set (pages_touched m a e)"
        using True by (auto simp add: pages_touched_def)
      with v show "is_valid_addr m x"
        by (simp add: is_valid_guest_addr_range_def is_valid_addr_def list_all_iff)
    qed
  next
    assume v: "\<forall>x. a \<le> x \<and> x < e \<longrightarrow> is_valid_addr m x"
    have "page_valid m q" if "q \<in> set (pages_touched m a e)" for q
    proof -
      from that True have "unat a div ?p \<le> q" "q \<le> (unat e - 1) div ?p"
        by (auto simp add: pages_touched_def)
      from page_of_range [OF p AE this]
      obtain X where X: "unat a \<le> X" "X < unat e" "X div ?p = q" by blast
      have "X < 2 ^ 32" using X(2) unsigned_less [of e, where 'a = nat] by simp
      then have u: "unat (of_nat X :: 32 word) = X" by (simp add: unat_of_nat)
      then have "a \<le> of_nat X \<and> of_nat X < e"
        using X by (simp add: word_le_nat_alt word_less_nat_alt)
      with v have "is_valid_addr m (of_nat X)" by blast
      then show ?thesis by (simp add: is_valid_addr_def u X(3))
    qed
    then show "is_valid_guest_addr_range m a e"
      by (simp add: is_valid_guest_addr_range_def list_all_iff)
  qed
qed

lemma hex2_concat_length: "length (concat (map (\<lambda>k. hex2 (f k)) ks)) = 2 * length ks"
  by (induction ks) (simp_all add: hex2_length)

text \<open>
  Claim C4, amended. Take a packet \<^verbatim>\<open>m\<close> \<open>h1\<close> \<^verbatim>\<open>,\<close> \<open>h2\<close> with the address
  \<open>a = parse_hex h1\<close> and the length \<open>len = parse_hex h2\<close>, a page size that is not 0, and
  a range that ends at least one page below the top of the address space (so that neither
  \<open>a + len\<close> nor the probing of \<^verbatim>\<open>check_memory_region\<close> wraps around). The reply is
  \<^verbatim>\<open>EAA\<close> iff \<open>a\<close> is 0 or some address of \<open>[a, a + len)\<close> lies in an invalid page;
  otherwise it is the \<open>2 * len\<close> lowercase hex digits of the bytes from \<open>a\<close> on.
\<close>

theorem read_memory_reply:
  assumes content: "content_string command = CHR ''m'' # h1 @ CHR '','' # h2"
    and comma: "CHR '','' \<notin> set h1"
    and size: "length (content_string command) < npos"
    and ps: "page_size (mem state) \<noteq> 0"
    and nowrap: "unat (parse_hex h1) + unat (parse_hex h2) + unat (page_size (mem state)) \<le> 2 ^ 32"
  shows "cmd_read_memory state command =
           (if parse_hex h1 = 0
               \<or> (\<exists>x. parse_hex h1 \<le> x \<and> x < parse_hex h1 + parse_hex h2
                       \<and> \<not> is_valid_addr (mem state) x)
            then Inr (''EAA'', state)
            else Inr (concat (map (\<lambda>k. hex2 (memory (mem state) (parse_hex h1 + of_nat k)))
                                [0 ..< unat (parse_hex h2)]), state))
         \<and> length (concat (map (\<lambda>k. hex2 (memory (mem state) (parse_hex h1 + of_nat k)))
                                [0 ..< unat (parse_hex h2)])) = 2 * unat (parse_hex h2)"
proof -
  let ?a = "parse_hex h1" and ?len = "parse_hex h2" and ?m = "mem state"
  note parse = read_memory_parse [OF content comma size, of state]
  have "0 < unat (page_size ?m)" using ps by (simp add: unat_gt_0)
  with nowrap have "unat ?a + unat ?len < 2 ^ 32" by simp
  then have e: "unat (?a + ?len) = unat ?a + unat ?len"
    by (simp add: unat_word_ariths)
  have range: "is_valid_guest_addr_range ?m ?a (?a + ?len)
       \<longleftrightarrow> (\<forall>x. ?a \<le> x \<and> x < ?a + ?len \<longrightarrow> is_valid_addr ?m x)"
    by (rule range_valid_iff [OF ps])
  have main: "cmd_read_memory state command =
           (if ?a = 0 \<or> (\<exists>x. ?a \<le> x \<and> x < ?a + ?len \<and> \<not> is_valid_addr ?m x)
            then Inr (''EAA'', state)
            else Inr (concat (map (\<lambda>k. hex2 (memory ?m (?a + of_nat k))) [0 ..< unat ?len]), state))"
  proof (cases "\<forall>x. ?a \<le> x \<and> x < ?a + ?len \<longrightarrow> is_valid_addr ?m x")
    case False
    with range show ?thesis by (auto simp: parse Let_def)
  next
    case True
    show ?thesis
    proof (cases "?a = 0")
      case z: True
      with True range show ?thesis
        by (simp add: parse Let_def check_memory_region_def)
    next
      case nz: False
      have "unat (?a + ?len) + unat (page_size ?m) \<le> 2 ^ 32" using e nowrap by simp
      from check_region_loop_valid [OF ps this True order_refl]
      have chk: "check_memory_region ?a ?len ?m = Some True"
        using nz by (simp add: check_memory_region_def)
      have "\<forall>k < 0 + unat ?len. ?a + of_nat k \<noteq> 0"
        using no_null_in_range [OF nz, of ?len] nowrap by simp
      from read_memory_loop_ok [OF this, of ?m "[]"]
      have rd: "read_memory_loop ?m ?a 0 (unat ?len) []
                = Inr (concat (map (\<lambda>k. hex2 (memory ?m (?a + of_nat k))) [0 ..< unat ?len]))"
        by simp
      from True range nz show ?thesis
        by (auto simp: parse Let_def chk rd)
    qed
  qed
  show ?thesis
    using main by (simp add: hex2_concat_length)
qed

lemma memory_packet_samples:
  "last_hash ''$m0,0#f9'' 8 = 5"
  "last_hash ''$m10000,4#be'' 12 = 9"
  "last_hash ''$m20000,4#bf'' 12 = 9"
  "make_checksum ''m0,0#f9'' 4 = 0xf9"
  "make_checksum ''m10000,4#be'' 8 = 0xbe"
  "make_checksum ''m20000,4#bf'' 8 = 0xbf"
  by (simp_all add: last_hash_def upt_rec make_checksum_def char_to_size_t_def)

lemma parse_hex_samples_memory:
  "parse_hex ''f9'' = 0xf9"
  "parse_hex ''be'' = 0xbe"
  "parse_hex ''bf'' = 0xbf"
  "parse_hex ''0'' = 0"
  "parse_hex ''4'' = 4"
  "parse_hex ''10000'' = 0x10000"
  "parse_hex ''20000'' = 0x20000"
  by (simp_all add: parse_hex_def strtoul16_def c_str_def hex_val_def is_space_def ULONG_MAX_def Let_def)

lemma content_string_memory_samples:
  "content_string (parse_command ''$m0,0#f9'' 8) = ''m0,0''"
  "content_string (parse_command ''$m10000,4#be'' 12) = ''m10000,4''"
  "content_string (parse_command ''$m20000,4#bf'' 12) = ''m20000,4''"
  by (simp_all add: parse_command_def Let_def content_string_def memory_packet_samples
      parse_hex_samples_memory)

lemma sample_mem_fields:
  "mem sample_state = sample_mem" "page_size sample_mem = 0x1000"
  "memory sample_mem a = ucast a" "page_valid sample_mem p = (p = 16)"
  by (simp_all add: sample_state_def sample_mem_def)

lemma sample_page_valid:
  assumes "(0x10000 :: 32 word) \<le> x" and "x < 0x10000 + 4"
  shows "is_valid_addr sample_mem x"
proof -
  from assms have "65536 \<le> unat x" "unat x < 65540"
    by (simp_all add: word_le_nat_alt word_less_nat_alt)
  then have "unat x div 4096 = 16" by simp
  then show ?thesis by (simp add: is_valid_addr_def sample_mem_fields)
qed

lemma sample_page_invalid: "\<not> is_valid_addr sample_mem 0x20000"
  by (simp add: is_valid_addr_def sample_mem_fields)

lemma sample_bytes:
  "concat (map (\<lambda>k. hex2 (ucast ((0x10000 :: 32 word) + of_nat k))) [0 ..< 4]) = ''00010203''"
  by (simp add: upt_rec hex_eval)

theorem read_memory_reply_witness:
  "content_string (parse_command ''$m10000,4#be'' 12) = CHR ''m'' # ''10000'' @ CHR '','' # ''4''
   \<and> CHR '','' \<notin> set ''10000''
   \<and> length (content_string (parse_command ''$m10000,4#be'' 12)) < npos
   \<and> page_size (mem sample_state) \<noteq> 0
   \<and> unat (parse_hex ''10000'') + unat (parse_hex ''4'') + unat (page_size (mem sample_state)) \<le> 2 ^ 32
   \<and> cmd_read_memory sample_state (parse_command ''$m10000,4#be'' 12)
       = Inr (''00010203'', sample_state)
   \<and> content_string (parse_command ''$m20000,4#bf'' 12) = CHR ''m'' # ''20000'' @ CHR '','' # ''4''
   \<and> unat (parse_hex ''20000'') + unat (parse_hex ''4'') + unat (page_size (mem sample_state)) \<le> 2 ^ 32
   \<and> cmd_read_memory sample_state (parse_command ''$m20000,4#bf'' 12)
       = Inr (''EAA'', sample_state)"
proof -
  have c1: "content_string (parse_command ''$m10000,4#be'' 12) = CHR ''m'' # ''10000'' @ CHR '','' # ''4''"
    and c2: "content_string (parse_command ''$m20000,4#bf'' 12) = CHR ''m'' # ''20000'' @ CHR '','' # ''4''"
    by (simp_all add: content_string_memory_samples)
  have n1: "CHR '','' \<notin> set ''10000''" and n2: "CHR '','' \<notin> set ''20000''" by simp_all
  have l1: "length (content_string (parse_command ''$m10000,4#be'' 12)) < npos"
    and l2: "length (content_string (parse_command ''$m20000,4#bf'' 12)) < npos"
    by (simp_all add: content_string_memory_samples npos_def)
  have p: "page_size (mem sample_state) \<noteq> 0" by (simp add: sample_mem_fields)
  have w1: "unat (parse_hex ''10000'') + unat (parse_hex ''4'') + unat (page_size (mem sample_state)) \<le> 2 ^ 32"
    and w2: "unat (parse_hex ''20000'') + unat (parse_hex ''4'') + unat (page_size (mem sample_state)) \<le> 2 ^ 32"
    by (simp_all add: parse_hex_samples_memory sample_mem_fields)
  have v: "\<not> (\<exists>x. (0x10000 :: 32 word) \<le> x \<and> x < 0x10000 + 4 \<and> \<not> is_valid_addr sample_mem x)"
    using sample_page_valid by blast
  have i: "\<exists>x. (0x20000 :: 32 word) \<le> x \<and> x < 0x20000 + 4 \<and> \<not> is_valid_addr sample_mem x"
    using sample_page_invalid by (intro exI [of _ "0x20000"]) simp
  have r1: "cmd_read_memory sample_state (parse_command ''$m10000,4#be'' 12)
       = Inr (''00010203'', sample_state)"
    using read_memory_reply [OF c1 n1 l1 p w1] v
    by (simp add: parse_hex_samples_memory sample_mem_fields sample_bytes)
  have r2: "cmd_read_memory sample_state (parse_command ''$m20000,4#bf'' 12)
       = Inr (''EAA'', sample_state)"
    using read_memory_reply [OF c2 n2 l2 p w2] i
    by (simp add: parse_hex_samples_memory sample_mem_fields)
  from c1 n1 l1 p w1 r1 c2 w2 r2 show ?thesis by blast
qed

text \<open>A read of no byte at the address 0 is refused, although its range holds no address
  and touches no page.\<close>

theorem read_memory_null_counterexample:
  "content_string (parse_command ''$m0,0#f9'' 8) = ''m0,0''
   \<and> parse_hex ''0'' = 0
   \<and> pages_touched (mem sample_state) 0 (0 + 0) = []
   \<and> \<not> (\<exists>x :: 32 word. 0 \<le> x \<and> x < 0 + 0)
   \<and> cmd_read_memory sample_state (parse_command ''$m0,0#f9'' 8) = Inr (''EAA'', sample_state)"
proof -
  have c: "content_string (parse_command ''$m0,0#f9'' 8) = CHR ''m'' # ''0'' @ CHR '','' # ''0''"
    by (simp add: content_string_memory_samples)
  have l: "length (content_string (parse_command ''$m0,0#f9'' 8)) < npos"
    by (simp add: content_string_memory_samples npos_def)
  have "cmd_read_memory sample_state (parse_command ''$m0,0#f9'' 8) = Inr (''EAA'', sample_state)"
    by (subst read_memory_parse [OF c _ l])
       (simp_all add: parse_hex_samples_memory Let_def is_valid_guest_addr_range_def pages_touched_def
          check_memory_region_def)
  then show ?thesis
    by (simp add: content_string_memory_samples parse_hex_samples_memory pages_touched_def)
qed

section \<open>The execution controller\<close>

lemma actions_string_Cons: "actions_string (a # acts) = CHR '';'' # a @ actions_string acts"
  by (simp add: actions_string_def)

lemma actions_string_takeWhile:
  assumes "CHR '';'' \<notin> set a"
  shows "takeWhile (\<lambda>c. c \<noteq> CHR '';'') (a @ actions_string acts) = a"
proof (cases acts)
  case Nil
  with assms show ?thesis by (auto simp add: actions_string_def takeWhile_eq_all_conv)
next
  case (Cons b bs)
  have "takeWhile (\<lambda>c. c \<noteq> CHR '';'') (a @ CHR '';'' # (b @ actions_string bs)) = a"
    using assms by (induction a) auto
  with Cons show ?thesis by (simp add: actions_string_Cons)
qed

lemma actions_string_empty_iff: "actions_string acts = [] \<longleftrightarrow> acts = []"
  by (cases acts) (simp_all add: actions_string_def)

text \<open>The scan of one action: where the next separator is, and what the action text is.\<close>

lemma vcont_scan_step:
  assumes semi: "CHR '';'' \<notin> set a"
    and size: "length (pre @ actions_string (a # acts)) < npos"
  shows "find_from (pre @ actions_string (a # acts)) CHR '';'' (length pre + 1)
         = (if acts = [] then npos else length pre + 1 + length a)"
    and "substr (pre @ actions_string (a # acts)) (length pre + 1)
           (find_from (pre @ actions_string (a # acts)) CHR '';'' (length pre + 1) - length pre - 1)
         = Inr a"
proof -
  let ?content = "pre @ actions_string (a # acts)"
  have d: "drop (length pre + 1) ?content = a @ actions_string acts"
    by (simp add: actions_string_Cons)
  have k: "length (takeWhile (\<lambda>c. c \<noteq> CHR '';'') (drop (length pre + 1) ?content)) = length a"
    by (simp only: d actions_string_takeWhile [OF semi])
  have l: "length ?content = length pre + 1 + length a + length (actions_string acts)"
    by (simp add: actions_string_Cons)
  show f: "find_from ?content CHR '';'' (length pre + 1)
         = (if acts = [] then npos else length pre + 1 + length a)"
    unfolding find_from_def Let_def k l
    using actions_string_empty_iff [of acts] by (cases "actions_string acts") auto
  have le: "length a \<le> npos - length pre - 1" using size l by simp
  show "substr ?content (length pre + 1) (find_from ?content CHR '';'' (length pre + 1) - length pre - 1)
         = Inr a"
  proof (cases "acts = []")
    case True
    have n: "find_from ?content CHR '';'' (length pre + 1) = npos" using f True by simp
    have "take (npos - length pre - 1) (drop (length pre + 1) ?content) = a"
      using le True by (simp only: d) (simp add: actions_string_def)
    then show ?thesis unfolding n substr_def using l by simp
  next
    case False
    have n: "find_from ?content CHR '';'' (length pre + 1) = length pre + 1 + length a"
      using f False by simp
    have "take (length pre + 1 + length a - length pre - 1) (drop (length pre + 1) ?content) = a"
      by (simp only: d) simp
    then show ?thesis unfolding n substr_def using l by simp
  qed
qed

lemma cmd_continue_loop_step:
  assumes semi: "CHR '';'' \<notin> set a"
    and size: "length (pre @ actions_string (a # acts)) < npos"
  shows "cmd_continue_loop env state (pre @ actions_string (a # acts)) (length pre)
         = (if supported_action a
            then vcont_action env state (action_letter a = CHR ''s'' \<or> action_letter a = CHR ''S'')
            else if acts \<noteq> []
            then cmd_continue_loop env state (pre @ actions_string (a # acts)) (length pre + 1 + length a)
            else Inr ([], state))"
proof -
  note scan = vcont_scan_step [OF semi size]
  have ne: "length pre + 1 + length a \<noteq> npos" using size by (simp add: actions_string_Cons)
  show ?thesis
    apply (subst cmd_continue_loop.simps)
    apply (simp only: Let_def)
    apply (simp only: scan(2))
    apply (simp only: scan(1))
    using ne apply (simp add: supported_action_def action_letter_def)
    done
qed

lemma cmd_continue_loop_actions:
  assumes "\<forall>a \<in> set (a0 # acts). CHR '';'' \<notin> set a"
    and "length (pre @ actions_string (a0 # acts)) < npos"
  shows "cmd_continue_loop env state (pre @ actions_string (a0 # acts)) (length pre)
         = (case find supported_action (a0 # acts) of
              None \<Rightarrow> Inr ([], state)
            | Some a \<Rightarrow>
                vcont_action env state (action_letter a = CHR ''s'' \<or> action_letter a = CHR ''S''))"
  using assms
proof (induction acts arbitrary: pre a0)
  case Nil
  from Nil.prems have semi: "CHR '';'' \<notin> set a0" by simp
  show ?case
    by (simp add: cmd_continue_loop_step [OF semi Nil.prems(2)])
next
  case (Cons a1 acts)
  from Cons.prems have semi: "CHR '';'' \<notin> set a0" by simp
  have content: "pre @ actions_string (a0 # a1 # acts) = (pre @ CHR '';'' # a0) @ actions_string (a1 # acts)"
    by (simp add: actions_string_Cons)
  have "cmd_continue_loop env state ((pre @ CHR '';'' # a0) @ actions_string (a1 # acts))
          (length (pre @ CHR '';'' # a0))
        = (case find supported_action (a1 # acts) of
              None \<Rightarrow> Inr ([], state)
            | Some a \<Rightarrow>
                vcont_action env state (action_letter a = CHR ''s'' \<or> action_letter a = CHR ''S''))"
    using Cons.prems by (intro Cons.IH) (simp_all add: actions_string_Cons)
  then have ih: "cmd_continue_loop env state (pre @ actions_string (a0 # a1 # acts)) (length pre + 1 + length a0)
        = (case find supported_action (a1 # acts) of
              None \<Rightarrow> Inr ([], state)
            | Some a \<Rightarrow>
                vcont_action env state (action_letter a = CHR ''s'' \<or> action_letter a = CHR ''S''))"
    by (simp add: actions_string_Cons)
  show ?case
    by (simp only: cmd_continue_loop_step [OF semi Cons.prems(2)] ih) simp
qed

lemma cmd_continue_actions:
  assumes "content_string command = ''vCont'' @ actions_string (a0 # acts)"
    and "\<forall>a \<in> set (a0 # acts). CHR '';'' \<notin> set a"
    and "length (content_string command) < npos"
  shows "cmd_continue env state command
         = (case find supported_action (a0 # acts) of
              None \<Rightarrow> Inr ([], state)
            | Some a \<Rightarrow>
                vcont_action env state (action_letter a = CHR ''s'' \<or> action_letter a = CHR ''S''))"
proof -
  have l5: "length ''vCont'' = 5" by simp
  have "length (''vCont'' @ actions_string (a0 # acts)) < npos" using assms by simp
  from cmd_continue_loop_actions [OF assms(2) this, of env state]
  have "cmd_continue_loop env state (''vCont'' @ actions_string (a0 # acts)) 5
         = (case find supported_action (a0 # acts) of
              None \<Rightarrow> Inr ([], state)
            | Some a \<Rightarrow>
                vcont_action env state (action_letter a = CHR ''s'' \<or> action_letter a = CHR ''S''))"
    unfolding l5 .
  then show ?thesis unfolding cmd_continue_def assms(1) .
qed

lemma wait_break_found:
  "wait_break die ps = Inr (Some (tid, ts)) \<Longrightarrow> map_of ts tid \<noteq> None"
proof (induction ps)
  case Nil
  then show ?case by (simp split: if_splits)
next
  case (Cons p ps)
  obtain d ts' where p: "p = (d, ts')" by (cases p)
  show ?case
  proof (cases "find (\<lambda>(tid, t). status t = suspend \<and> hit_breakpoint (cpu t)) ts'")
    case None
    with Cons p show ?thesis by (simp split: if_splits)
  next
    case (Some e)
    obtain tid' t' where e: "e = (tid', t')" by (cases e)
    from Some e have "(tid', t') \<in> set ts'"
      by (auto simp: find_Some_iff in_set_conv_nth)
    then have "map_of ts' tid' \<noteq> None"
      by (metis map_of_eq_None_iff fst_conv image_eqI)
    with Cons.prems p Some e show ?thesis by (simp split: if_splits)
  qed
qed

lemma vcont_action_outcome:
  assumes "vcont_action env state step = Inr (r, state')"
  shows "(r = ''S05'' \<and> current_thread (gdb state') = inferior_thread (gdb state'))
         \<or> (\<not> step \<and> r = [] \<and> server_die (gdb state')
             \<and> current_thread (gdb state') = current_thread (gdb state))"
  using assms
  by (auto simp: vcont_action_def split: sum.splits if_splits option.splits
      dest!: resume_inferior_gdb)

lemma vcont_step_no_inferior:
  assumes "inferior_thread (gdb state) = 0"
  shows "vcont_action env state True
         = Inr (''S05'', state\<lparr>gdb := (gdb state)\<lparr>current_thread := 0\<rparr>\<rparr>)"
  using assms by (simp add: vcont_action_def resume_inferior_def)

lemma vcont_step_inferior:
  assumes "inferior_thread (gdb state) \<noteq> 0"
    and "map_of (threads (kernel state)) (inferior_thread (gdb state)) = Some t"
    and "resume_thread env True (inferior_thread (gdb state)) t = Some t'"
    and "status t' = suspend"
  shows "vcont_action env state True
         = Inr (''S05'', (set_thread state (inferior_thread (gdb state)) t')
                  \<lparr>gdb := (gdb state)\<lparr>current_thread := inferior_thread (gdb state)\<rparr>\<rparr>)"
  using assms by (simp add: vcont_action_def resume_inferior_def Let_def)

lemma vcont_continue_die:
  assumes "resume_inferior env state False = Inr state1"
    and "resume_world env (threads (kernel state1)) = Inr ts1"
    and "wait_break (server_die (gdb state1)) (polls env) = Inr None"
  shows "vcont_action env state False
         = Inr ([], state1\<lparr>gdb := (gdb state1)\<lparr>server_die := True\<rparr>,
                           kernel := (kernel state1)\<lparr>threads := ts1\<rparr>\<rparr>)"
  using assms by (simp add: vcont_action_def)

lemma vcont_continue_break:
  assumes "resume_inferior env state False = Inr state1"
    and "resume_world env (threads (kernel state1)) = Inr ts1"
    and "wait_break (server_die (gdb state1)) (polls env) = Inr (Some (tid, ts2))"
    and "stop_world env ts2 = Inr ts3"
  shows "vcont_action env state False
         = Inr (''S05'', state1\<lparr>gdb := (gdb state1)\<lparr>inferior_thread := tid, current_thread := tid\<rparr>,
                                kernel := (kernel state1)\<lparr>threads := ts3\<rparr>\<rparr>)"
proof -
  from wait_break_found [OF assms(3)] obtain t where "map_of ts2 tid = Some t" by auto
  with assms show ?thesis by (simp add: vcont_action_def)
qed

text \<open>
  Claim C1, amended. For a body \<^verbatim>\<open>vCont\<close> with the actions \<open>a0 # acts\<close>, the handler
  goes through the actions in order, skips those whose letter is none of \<^verbatim>\<open>s\<close>, \<^verbatim>\<open>S\<close>,
  \<^verbatim>\<open>c\<close>, \<^verbatim>\<open>C\<close>, and carries out the first action with such a letter, whatever follows
  the letter and whatever actions come behind; with no such action it replies with the empty
  string and changes nothing. Whenever the action carried out returns, it has either set
  \<^verbatim>\<open>current_thread\<close> to \<^verbatim>\<open>inferior_thread\<close> and replied \<^verbatim>\<open>S05\<close>, or it was a continue
  that saw \<^verbatim>\<open>server_die\<close>, replied with the empty string and left \<^verbatim>\<open>current_thread\<close> as it
  was. A step returns (with \<^verbatim>\<open>S05\<close>) when no thread has stopped yet, and when the inferior
  thread is in the table and is seen suspended after the resume; a continue returns when the
  threads resumed are seen running and then either \<^verbatim>\<open>server_die\<close> is seen (empty reply) or a
  suspended thread at a breakpoint is seen and the running threads are seen stopped
  (\<^verbatim>\<open>S05\<close>).
\<close>

theorem vcont_honors_first_supported_action:
  assumes content: "content_string command = ''vCont'' @ actions_string (a0 # acts)"
    and semi: "\<forall>a \<in> set (a0 # acts). CHR '';'' \<notin> set a"
    and size: "length (content_string command) < npos"
  shows "cmd_continue env state command
         = (case find supported_action (a0 # acts) of
              None \<Rightarrow> Inr ([], state)
            | Some a \<Rightarrow>
                vcont_action env state (action_letter a = CHR ''s'' \<or> action_letter a = CHR ''S''))
     \<and> (\<forall>step r state'. vcont_action env state step = Inr (r, state') \<longrightarrow>
           (r = ''S05'' \<and> current_thread (gdb state') = inferior_thread (gdb state'))
           \<or> (\<not> step \<and> r = [] \<and> server_die (gdb state')
               \<and> current_thread (gdb state') = current_thread (gdb state)))
     \<and> (inferior_thread (gdb state) = 0 \<longrightarrow>
           vcont_action env state True
             = Inr (''S05'', state\<lparr>gdb := (gdb state)\<lparr>current_thread := 0\<rparr>\<rparr>))
     \<and> (\<forall>t t'. inferior_thread (gdb state) \<noteq> 0
             \<and> map_of (threads (kernel state)) (inferior_thread (gdb state)) = Some t
             \<and> resume_thread env True (inferior_thread (gdb state)) t = Some t'
             \<and> status t' = suspend \<longrightarrow>
           vcont_action env state True
             = Inr (''S05'', (set_thread state (inferior_thread (gdb state)) t')
                      \<lparr>gdb := (gdb state)\<lparr>current_thread := inferior_thread (gdb state)\<rparr>\<rparr>))
     \<and> (\<forall>state1 ts1. resume_inferior env state False = Inr state1
             \<and> resume_world env (threads (kernel state1)) = Inr ts1 \<longrightarrow>
           (wait_break (server_die (gdb state1)) (polls env) = Inr None \<longrightarrow>
              vcont_action env state False
                = Inr ([], state1\<lparr>gdb := (gdb state1)\<lparr>server_die := True\<rparr>,
                                  kernel := (kernel state1)\<lparr>threads := ts1\<rparr>\<rparr>))
         \<and> (\<forall>tid ts2 ts3. wait_break (server_die (gdb state1)) (polls env) = Inr (Some (tid, ts2))
                 \<and> stop_world env ts2 = Inr ts3 \<longrightarrow>
              vcont_action env state False
                = Inr (''S05'', state1\<lparr>gdb := (gdb state1)\<lparr>inferior_thread := tid, current_thread := tid\<rparr>,
                                       kernel := (kernel state1)\<lparr>threads := ts3\<rparr>\<rparr>)))"
proof -
  have l5: "length ''vCont'' = 5" by simp
  have "length (''vCont'' @ actions_string (a0 # acts)) < npos" using size content by simp
  from cmd_continue_loop_actions [OF semi this, of env state]
  have "cmd_continue_loop env state (''vCont'' @ actions_string (a0 # acts)) 5
         = (case find supported_action (a0 # acts) of
              None \<Rightarrow> Inr ([], state)
            | Some a \<Rightarrow>
                vcont_action env state (action_letter a = CHR ''s'' \<or> action_letter a = CHR ''S''))"
    unfolding l5 .
  then have scan: "cmd_continue env state command
         = (case find supported_action (a0 # acts) of
              None \<Rightarrow> Inr ([], state)
            | Some a \<Rightarrow>
                vcont_action env state (action_letter a = CHR ''s'' \<or> action_letter a = CHR ''S''))"
    unfolding cmd_continue_def content .
  show ?thesis
    using scan vcont_action_outcome [of env state] vcont_step_no_inferior [of state env]
      vcont_step_inferior [of state _ env] vcont_continue_die [of env state]
      vcont_continue_break [of env state]
    by blast
qed

lemma vcont_packet_samples:
  "last_hash ''$vCont;t;s#67'' 13 = 10"
  "last_hash ''$vCont;c#a8'' 11 = 8"
  "last_hash ''$vCont;t#b9'' 11 = 8"
  "last_hash ''$vCont;s:2a;c#23'' 16 = 13"
  "make_checksum ''vCont;t;s#67'' 9 = 0x67"
  "make_checksum ''vCont;c#a8'' 7 = 0xa8"
  "make_checksum ''vCont;t#b9'' 7 = 0xb9"
  "make_checksum ''vCont;s:2a;c#23'' 12 = 0x23"
  by (simp_all add: last_hash_def upt_rec make_checksum_def char_to_size_t_def)

lemma parse_hex_samples_vcont:
  "parse_hex ''67'' = 0x67"
  "parse_hex ''a8'' = 0xa8"
  "parse_hex ''b9'' = 0xb9"
  "parse_hex ''23'' = 0x23"
  by (simp_all add: parse_hex_def strtoul16_def c_str_def hex_val_def is_space_def ULONG_MAX_def Let_def)

lemma content_string_vcont_samples:
  "content_string (parse_command ''$vCont;t;s#67'' 13) = ''vCont;t;s''"
  "content_string (parse_command ''$vCont;c#a8'' 11) = ''vCont;c''"
  "content_string (parse_command ''$vCont;t#b9'' 11) = ''vCont;t''"
  "content_string (parse_command ''$vCont;s:2a;c#23'' 16) = ''vCont;s:2a;c''"
  by (simp_all add: parse_command_def Let_def content_string_def vcont_packet_samples
      parse_hex_samples_vcont)

lemma actions_string_samples:
  "''vCont;t;s'' = ''vCont'' @ actions_string [''t'', ''s'']"
  "''vCont;c'' = ''vCont'' @ actions_string [''c'']"
  "''vCont;t'' = ''vCont'' @ actions_string [''t'']"
  "''vCont;s:2a;c'' = ''vCont'' @ actions_string [''s:2a'', ''c'']"
  by (simp_all add: actions_string_def)

lemma find_supported_samples:
  "find supported_action [''t'', ''s''] = Some ''s''"
  "find supported_action [''c''] = Some ''c''"
  "find supported_action [''t''] = None"
  "find supported_action [''s:2a'', ''c''] = Some ''s:2a''"
  "action_letter ''s'' = CHR ''s''" "action_letter ''c'' = CHR ''c''" "action_letter ''s:2a'' = CHR ''s''"
  "action_letter ''t'' = CHR ''t''"
  by (simp_all add: supported_action_def action_letter_def)

lemma sample_state_fields:
  "inferior_thread (gdb sample_state) = 0" "current_thread (gdb sample_state) = - 1"
  "threads (kernel sample_state) = [(0x2a, sample_thread)]"
  "server_die (gdb sample_state) = False"
  "inferior_thread (gdb sample_state_stopped) = 0x2a"
  "threads (kernel sample_state_stopped) = [(0x2a, sample_thread)]"
  by (simp_all add: sample_state_def sample_state_stopped_def)

lemma sample_env_fields:
  "resume_thread sample_env step tid t = Some (t\<lparr>status := (if step then suspend else run)\<rparr>)"
  "resume_thread sample_env_dying step tid t = Some (t\<lparr>status := (if step then suspend else run)\<rparr>)"
  "resume_thread sample_env_break step tid t = Some (t\<lparr>status := (if step then suspend else run)\<rparr>)"
  "suspend_thread sample_env_break tid t = Some (t\<lparr>status := suspend\<rparr>)"
  "polls sample_env_dying = [(True, [])]"
  "polls sample_env_break =
       [(False, [(0x2a, \<lparr>status = run, cpu = sample_cpu\<rparr>)]),
        (False, [(0x2a, \<lparr>status = suspend, cpu = sample_cpu\<lparr>hit_breakpoint := True\<rparr>\<rparr>)])]"
  by (simp_all add: sample_env_def sample_env_dying_def sample_env_break_def)

lemma content_actions_samples:
  "content_string (parse_command ''$vCont;t#b9'' 11) = ''vCont'' @ actions_string [''t'']"
  "content_string (parse_command ''$vCont;t;s#67'' 13) = ''vCont'' @ actions_string [''t'', ''s'']"
  "content_string (parse_command ''$vCont;c#a8'' 11) = ''vCont'' @ actions_string [''c'']"
  "content_string (parse_command ''$vCont;s:2a;c#23'' 16) = ''vCont'' @ actions_string [''s:2a'', ''c'']"
  by (simp_all add: content_string_vcont_samples actions_string_def)

lemma content_size_samples:
  "length (content_string (parse_command ''$vCont;t#b9'' 11)) < npos"
  "length (content_string (parse_command ''$vCont;t;s#67'' 13)) < npos"
  "length (content_string (parse_command ''$vCont;c#a8'' 11)) < npos"
  "length (content_string (parse_command ''$vCont;s:2a;c#23'' 16)) < npos"
  by (simp_all add: content_string_vcont_samples npos_def)

lemma vcont_sample_results:
  "cmd_continue sample_env sample_state (parse_command ''$vCont;t#b9'' 11) = Inr ([], sample_state)"
  "cmd_continue sample_env sample_state (parse_command ''$vCont;t;s#67'' 13)
     = Inr (''S05'', sample_state\<lparr>gdb := (gdb sample_state)\<lparr>current_thread := 0\<rparr>\<rparr>)"
proof -
  have s1: "\<forall>a \<in> set [''t'']. CHR '';'' \<notin> set a" by simp
  have s2: "\<forall>a \<in> set [''t'', ''s'']. CHR '';'' \<notin> set a" by simp
  show "cmd_continue sample_env sample_state (parse_command ''$vCont;t#b9'' 11) = Inr ([], sample_state)"
    by (simp only: cmd_continue_actions [OF content_actions_samples(1) s1 content_size_samples(1)]
        find_supported_samples option.case)
  show "cmd_continue sample_env sample_state (parse_command ''$vCont;t;s#67'' 13)
     = Inr (''S05'', sample_state\<lparr>gdb := (gdb sample_state)\<lparr>current_thread := 0\<rparr>\<rparr>)"
    by (simp only: cmd_continue_actions [OF content_actions_samples(2) s2 content_size_samples(2)]
        find_supported_samples option.case)
       (simp add: vcont_step_no_inferior sample_state_fields)
qed

lemma vcont_sample_dying:
  "cmd_continue sample_env_dying sample_state (parse_command ''$vCont;c#a8'' 11)
   = Inr ([], sample_state\<lparr>gdb := (gdb sample_state)\<lparr>server_die := True\<rparr>,
                           kernel := (kernel sample_state)\<lparr>threads := [(0x2a, sample_thread\<lparr>status := run\<rparr>)]\<rparr>\<rparr>)"
proof -
  have s: "\<forall>a \<in> set [''c'']. CHR '';'' \<notin> set a" by simp
  have ri: "resume_inferior sample_env_dying sample_state False = Inr sample_state"
    by (simp add: resume_inferior_def sample_state_fields)
  have rw: "resume_world sample_env_dying (threads (kernel sample_state))
            = Inr [(0x2a, sample_thread\<lparr>status := run\<rparr>)]"
    by (simp add: sample_state_fields sample_env_fields sample_thread_def)
  have wb: "wait_break (server_die (gdb sample_state)) (polls sample_env_dying) = Inr None"
    by (simp add: sample_state_fields sample_env_fields)
  show ?thesis
    by (simp only: cmd_continue_actions [OF content_actions_samples(3) s content_size_samples(3)]
        find_supported_samples option.case)
       (simp add: vcont_continue_die [OF ri rw wb])
qed

text \<open>\<^verbatim>\<open>vCont;t;s\<close>: the first action is skipped and the second, a step, is carried out.
  \<^verbatim>\<open>vCont;c\<close> while \<^verbatim>\<open>server_die\<close> comes up: the reply is empty and \<^verbatim>\<open>current_thread\<close>
  stays.\<close>

theorem vcont_trailing_action_counterexample:
  "content_string (parse_command ''$vCont;t;s#67'' 13) = ''vCont;t;s''
   \<and> cmd_continue sample_env sample_state (parse_command ''$vCont;t;s#67'' 13)
       = Inr (''S05'', sample_state\<lparr>gdb := (gdb sample_state)\<lparr>current_thread := 0\<rparr>\<rparr>)
   \<and> content_string (parse_command ''$vCont;t#b9'' 11) = ''vCont;t''
   \<and> cmd_continue sample_env sample_state (parse_command ''$vCont;t#b9'' 11) = Inr ([], sample_state)
   \<and> content_string (parse_command ''$vCont;c#a8'' 11) = ''vCont;c''
   \<and> (\<exists>state'. cmd_continue sample_env_dying sample_state (parse_command ''$vCont;c#a8'' 11)
                   = Inr ([], state')
          \<and> current_thread (gdb state') = - 1 \<and> inferior_thread (gdb state') = 0)"
  by (simp add: content_string_vcont_samples vcont_sample_results vcont_sample_dying
      sample_state_fields)

theorem vcont_honors_first_supported_action_witness:
  "content_string (parse_command ''$vCont;s:2a;c#23'' 16) = ''vCont'' @ actions_string [''s:2a'', ''c'']
   \<and> CHR '';'' \<notin> set ''s:2a'' \<and> CHR '';'' \<notin> set ''c''
   \<and> length (content_string (parse_command ''$vCont;s:2a;c#23'' 16)) < npos
   \<and> inferior_thread (gdb sample_state_stopped) \<noteq> 0
   \<and> map_of (threads (kernel sample_state_stopped)) (inferior_thread (gdb sample_state_stopped))
       = Some sample_thread
   \<and> resume_thread sample_env True (inferior_thread (gdb sample_state_stopped)) sample_thread
       = Some (sample_thread\<lparr>status := suspend\<rparr>)
   \<and> status (sample_thread\<lparr>status := suspend\<rparr>) = suspend
   \<and> map_sum id (\<lambda>(r, s). (r, current_thread (gdb s), inferior_thread (gdb s)))
         (cmd_continue sample_env sample_state_stopped (parse_command ''$vCont;s:2a;c#23'' 16))
       = Inr (''S05'', 0x2a, 0x2a)
   \<and> content_string (parse_command ''$vCont;c#a8'' 11) = ''vCont'' @ actions_string [''c'']
   \<and> length (content_string (parse_command ''$vCont;c#a8'' 11)) < npos
   \<and> map_sum id (\<lambda>(r, s). (r, current_thread (gdb s), inferior_thread (gdb s)))
         (cmd_continue sample_env_break sample_state (parse_command ''$vCont;c#a8'' 11))
       = Inr (''S05'', 0x2a, 0x2a)
   \<and> map_sum id (\<lambda>(r, s). (r, current_thread (gdb s), server_die (gdb s)))
         (cmd_continue sample_env_dying sample_state (parse_command ''$vCont;c#a8'' 11))
       = Inr ([], - 1, True)"
proof -
  let ?step = "parse_command ''$vCont;s:2a;c#23'' 16"
  let ?cont = "parse_command ''$vCont;c#a8'' 11"
  note c1 = content_actions_samples(4) and l1 = content_size_samples(4)
  note c2 = content_actions_samples(3) and l2 = content_size_samples(3)
  have s1: "\<forall>a \<in> set [''s:2a'', ''c'']. CHR '';'' \<notin> set a" by simp
  have s2: "\<forall>a \<in> set [''c'']. CHR '';'' \<notin> set a" by simp
  have i: "inferior_thread (gdb sample_state_stopped) \<noteq> 0"
    and m: "map_of (threads (kernel sample_state_stopped)) (inferior_thread (gdb sample_state_stopped))
            = Some sample_thread"
    and r: "resume_thread sample_env True (inferior_thread (gdb sample_state_stopped)) sample_thread
            = Some (sample_thread\<lparr>status := suspend\<rparr>)"
    and u: "status (sample_thread\<lparr>status := suspend\<rparr>) = suspend"
    by (simp_all add: sample_state_fields sample_env_fields)
  \<comment> \<open>the step\<close>
  note A = vcont_honors_first_supported_action [OF c1 s1 l1, of sample_env sample_state_stopped]
  from A have "cmd_continue sample_env sample_state_stopped ?step
        = (case find supported_action [''s:2a'', ''c''] of
              None \<Rightarrow> Inr ([], sample_state_stopped)
            | Some a \<Rightarrow>
                vcont_action sample_env sample_state_stopped (action_letter a = CHR ''s'' \<or> action_letter a = CHR ''S''))"
    by blast
  then have scan1: "cmd_continue sample_env sample_state_stopped ?step
        = vcont_action sample_env sample_state_stopped True"
    by (simp only: find_supported_samples option.case) simp
  from A i m r u have "vcont_action sample_env sample_state_stopped True
        = Inr (''S05'', (set_thread sample_state_stopped (inferior_thread (gdb sample_state_stopped))
                           (sample_thread\<lparr>status := suspend\<rparr>))
                  \<lparr>gdb := (gdb sample_state_stopped)
                     \<lparr>current_thread := inferior_thread (gdb sample_state_stopped)\<rparr>\<rparr>)"
    by blast
  with scan1 have w1: "map_sum id (\<lambda>(r, s). (r, current_thread (gdb s), inferior_thread (gdb s)))
         (cmd_continue sample_env sample_state_stopped ?step) = Inr (''S05'', 0x2a, 0x2a)"
    by (simp add: sample_state_fields)
  \<comment> \<open>the continue that finds a breakpoint\<close>
  note B = vcont_honors_first_supported_action [OF c2 s2 l2, of sample_env_break sample_state]
  from B have "cmd_continue sample_env_break sample_state ?cont
        = (case find supported_action [''c''] of
              None \<Rightarrow> Inr ([], sample_state)
            | Some a \<Rightarrow>
                vcont_action sample_env_break sample_state (action_letter a = CHR ''s'' \<or> action_letter a = CHR ''S''))"
    by blast
  then have scan2: "cmd_continue sample_env_break sample_state ?cont
        = vcont_action sample_env_break sample_state False"
    by (simp only: find_supported_samples option.case) simp
  have ri: "resume_inferior sample_env_break sample_state False = Inr sample_state"
    by (simp add: resume_inferior_def sample_state_fields)
  have rw: "resume_world sample_env_break (threads (kernel sample_state))
            = Inr [(0x2a, sample_thread\<lparr>status := run\<rparr>)]"
    by (simp add: sample_state_fields sample_env_fields sample_thread_def)
  have wb: "wait_break (server_die (gdb sample_state)) (polls sample_env_break)
            = Inr (Some (0x2a, [(0x2a, \<lparr>status = suspend, cpu = sample_cpu\<lparr>hit_breakpoint := True\<rparr>\<rparr>)]))"
    by (simp add: sample_state_fields sample_env_fields sample_cpu_def)
  have sw: "stop_world sample_env_break [(0x2a, \<lparr>status = suspend, cpu = sample_cpu\<lparr>hit_breakpoint := True\<rparr>\<rparr>)]
            = Inr [(0x2a, \<lparr>status = suspend, cpu = sample_cpu\<lparr>hit_breakpoint := True\<rparr>\<rparr>)]"
    by simp
  from B ri rw wb sw have "vcont_action sample_env_break sample_state False
        = Inr (''S05'', sample_state\<lparr>gdb := (gdb sample_state)\<lparr>inferior_thread := 0x2a, current_thread := 0x2a\<rparr>,
                 kernel := (kernel sample_state)
                   \<lparr>threads := [(0x2a, \<lparr>status = suspend, cpu = sample_cpu\<lparr>hit_breakpoint := True\<rparr>\<rparr>)]\<rparr>\<rparr>)"
    by blast
  with scan2 have w2: "map_sum id (\<lambda>(r, s). (r, current_thread (gdb s), inferior_thread (gdb s)))
         (cmd_continue sample_env_break sample_state ?cont) = Inr (''S05'', 0x2a, 0x2a)"
    by simp
  \<comment> \<open>the continue that sees the shutdown\<close>
  note C = vcont_honors_first_supported_action [OF c2 s2 l2, of sample_env_dying sample_state]
  from C have "cmd_continue sample_env_dying sample_state ?cont
        = (case find supported_action [''c''] of
              None \<Rightarrow> Inr ([], sample_state)
            | Some a \<Rightarrow>
                vcont_action sample_env_dying sample_state (action_letter a = CHR ''s'' \<or> action_letter a = CHR ''S''))"
    by blast
  then have scan3: "cmd_continue sample_env_dying sample_state ?cont
        = vcont_action sample_env_dying sample_state False"
    by (simp only: find_supported_samples option.case) simp
  have ri3: "resume_inferior sample_env_dying sample_state False = Inr sample_state"
    by (simp add: resume_inferior_def sample_state_fields)
  have rw3: "resume_world sample_env_dying (threads (kernel sample_state))
            = Inr [(0x2a, sample_thread\<lparr>status := run\<rparr>)]"
    by (simp add: sample_state_fields sample_env_fields sample_thread_def)
  have wb3: "wait_break (server_die (gdb sample_state)) (polls sample_env_dying) = Inr None"
    by (simp add: sample_state_fields sample_env_fields)
  from C ri3 rw3 wb3 have "vcont_action sample_env_dying sample_state False
        = Inr ([], sample_state\<lparr>gdb := (gdb sample_state)\<lparr>server_die := True\<rparr>,
                 kernel := (kernel sample_state)\<lparr>threads := [(0x2a, sample_thread\<lparr>status := run\<rparr>)]\<rparr>\<rparr>)"
    by blast
  with scan3 have w3: "map_sum id (\<lambda>(r, s). (r, current_thread (gdb s), server_die (gdb s)))
         (cmd_continue sample_env_dying sample_state ?cont) = Inr ([], - 1, True)"
    by (simp add: sample_state_fields)
  have n: "CHR '';'' \<notin> set ''s:2a''" "CHR '';'' \<notin> set ''c''" by simp_all
  from c1 n l1 i m r u w1 c2 l2 w2 w3 show ?thesis by blast
qed

end
